theory Spec2Isabelle
  imports Main "HOL-Library.Multiset"
begin

section \<open>Strings and regular expressions\<close>

text \<open>
  A filename is a \<^typ>\<open>string\<close>: the list of its code units, each below 256. File names
  with code units beyond that range are outside this development; none of the patterns of
  the classifier mentions one.
\<close>

definition toLowerCase_char :: "char \<Rightarrow> char" where
  "toLowerCase_char c =
     (let n = (of_char c :: nat)
      in if (65 \<le> n \<and> n \<le> 90) \<or> (192 \<le> n \<and> n \<le> 222 \<and> n \<noteq> 215)
         then char_of (n + 32) else c)"

definition toLowerCase :: "string \<Rightarrow> string" where
  "toLowerCase s = map toLowerCase_char s"

text \<open>
  The fragment of regular expressions that the source uses. \<open>Bol\<close> is \<open>^\<close>, \<open>Eol\<close> is
  \<open>$\<close> (no multiline flag anywhere), \<open>Class cs\<close> is \<open>[cs]\<close>, \<open>NotClassPlus cs\<close> is
  \<open>[^cs]+\<close>, \<open>Opt r\<close> is \<open>r?\<close>. The classes of the source hold no letter, so the \<open>i\<close>
  flag does not change what they match.
\<close>

datatype regex =
    Eps
  | Chr char
  | Class "char list"
  | NotClassPlus "char list"
  | Bol
  | Eol
  | Seq regex regex
  | Alt regex regex
  | Opt regex

text \<open>A regular expression object: the pattern and its \<open>i\<close> flag.\<close>

record RegExp =
  pattern :: regex
  ignoreCase :: bool

text \<open>
  Canonicalisation of a code unit under the \<open>i\<close> flag (without the \<open>u\<close> flag): the upper
  case of an ASCII letter. A code unit from 128 on is never identified with an ASCII one,
  and every character of the patterns is ASCII, so this decides every comparison of the
  patterns exactly.
\<close>

definition canonicalize :: "bool \<Rightarrow> char \<Rightarrow> char" where
  "canonicalize ic c =
     (let n = (of_char c :: nat)
      in if ic \<and> 97 \<le> n \<and> n \<le> 122 then char_of (n - 32) else c)"

text \<open>
  \<open>rmatch ic r at_start s\<close> lists the ways \<open>r\<close> can match a prefix of the remaining input
  \<open>s\<close>, in the priority order of a backtracking matcher; each result is the input left
  over. \<open>at_start\<close> says that the position is the start of the whole input.
\<close>

fun rmatch :: "bool \<Rightarrow> regex \<Rightarrow> bool \<Rightarrow> string \<Rightarrow> (bool \<times> string) list" where
  "rmatch ic Eps b s = [(b, s)]"
| "rmatch ic (Chr c) b [] = []"
| "rmatch ic (Chr c) b (d # s) =
     (if canonicalize ic d = canonicalize ic c then [(False, s)] else [])"
| "rmatch ic (Class cs) b [] = []"
| "rmatch ic (Class cs) b (d # s) = (if d \<in> set cs then [(False, s)] else [])"
| "rmatch ic (NotClassPlus cs) b s =
     map (\<lambda>k. (False, drop k s))
       (rev [1 ..< Suc (length (takeWhile (\<lambda>d. d \<notin> set cs) s))])"
| "rmatch ic Bol b s = (if b then [(b, s)] else [])"
| "rmatch ic Eol b s = (if s = [] then [(b, s)] else [])"
| "rmatch ic (Seq r1 r2) b s =
     concat (map (\<lambda>(b', s'). rmatch ic r2 b' s') (rmatch ic r1 b s))"
| "rmatch ic (Alt r1 r2) b s = rmatch ic r1 b s @ rmatch ic r2 b s"
| "rmatch ic (Opt r) b s = rmatch ic r b s @ [(b, s)]"

text \<open>\<open>regex.test(name)\<close>: some position of the input starts a match.\<close>

fun test_from :: "bool \<Rightarrow> regex \<Rightarrow> bool \<Rightarrow> string \<Rightarrow> bool" where
  "test_from ic r b [] = (rmatch ic r b [] \<noteq> [])"
| "test_from ic r b (c # s) = (rmatch ic r b (c # s) \<noteq> [] \<or> test_from ic r False s)"

definition regex_test :: "RegExp \<Rightarrow> string \<Rightarrow> bool" where
  "regex_test re s = test_from (ignoreCase re) (pattern re) True s"

text \<open>
  \<open>s.replace(regex, rep)\<close> for a regular expression without the \<open>g\<close> flag and a
  replacement without \<open>$\<close>: the leftmost match, in the matcher's priority, is replaced.
\<close>

fun replace_from :: "bool \<Rightarrow> regex \<Rightarrow> string \<Rightarrow> bool \<Rightarrow> string \<Rightarrow> string" where
  "replace_from ic r rep b [] = (case rmatch ic r b [] of [] \<Rightarrow> [] | (_, rest) # _ \<Rightarrow> rep @ rest)"
| "replace_from ic r rep b (c # s) =
     (case rmatch ic r b (c # s) of
        [] \<Rightarrow> c # replace_from ic r rep False s
      | (_, rest) # _ \<Rightarrow> rep @ rest)"

definition replace :: "string \<Rightarrow> RegExp \<Rightarrow> string \<Rightarrow> string" where
  "replace s re rep = replace_from (ignoreCase re) (pattern re) rep True s"

text \<open>A literal word of a pattern, character by character.\<close>

fun lit :: "string \<Rightarrow> regex" where
  "lit [] = Eps"
| "lit [c] = Chr c"
| "lit (c # s) = Seq (Chr c) (lit s)"

section \<open>The face classifier\<close>

datatype CubeFace = Top | Left | Front | Right | Back | Bottom

text \<open>
  \<open>\s\<close> within the code units below 256: tab, line feed, vertical tab, form feed,
  carriage return, space and no-break space.
\<close>

definition whitespace :: "char list" where
  "whitespace = [CHR 0x09, CHR 0x0A, CHR 0x0B, CHR 0x0C, CHR 0x0D, CHR '' '', CHR 0xA0]"

text \<open>The class \<open>[_\-\s]\<close>.\<close>

definition sep :: "char list" where
  "sep = [CHR ''_'', CHR ''-''] @ whitespace"

text \<open>\<open>(?:^|[_\-\s])\<close> and \<open>(?:[_\-\s]|$)\<close>.\<close>

definition lead :: regex where
  "lead = Alt Bol (Class sep)"

definition trail :: regex where
  "trail = Alt (Class sep) Eol"

text \<open>\<open>/(?:^|[_\-\s])w(?:[_\-\s]|$)/i\<close> for a pattern body \<open>w\<close>.\<close>

definition delimited :: "regex \<Rightarrow> RegExp" where
  "delimited w = \<lparr>pattern = Seq lead (Seq w trail), ignoreCase = True\<rparr>"

text \<open>\<open>pos(?:itive)?[_\-\s]?x\<close> and \<open>neg(?:ative)?[_\-\s]?x\<close>, for each axis letter.\<close>

definition pos_axis :: "char \<Rightarrow> regex" where
  "pos_axis a = Seq (lit ''pos'') (Seq (Opt (lit ''itive'')) (Seq (Opt (Class sep)) (Chr a)))"

definition neg_axis :: "char \<Rightarrow> regex" where
  "neg_axis a = Seq (lit ''neg'') (Seq (Opt (lit ''ative'')) (Seq (Opt (Class sep)) (Chr a)))"

text \<open>An unanchored pattern such as \<open>/\+x/i\<close>.\<close>

definition anywhere :: "string \<Rightarrow> RegExp" where
  "anywhere w = \<lparr>pattern = lit w, ignoreCase = True\<rparr>"

definition patterns :: "(RegExp \<times> CubeFace) list" where
  "patterns =
    [(delimited (pos_axis CHR ''x''), Right),
     (delimited (neg_axis CHR ''x''), Left),
     (delimited (pos_axis CHR ''y''), Top),
     (delimited (neg_axis CHR ''y''), Bottom),
     (delimited (pos_axis CHR ''z''), Front),
     (delimited (neg_axis CHR ''z''), Back),

     (delimited (lit ''px''), Right),
     (delimited (lit ''nx''), Left),
     (delimited (lit ''py''), Top),
     (delimited (lit ''ny''), Bottom),
     (delimited (lit ''pz''), Front),
     (delimited (lit ''nz''), Back),

     (delimited (lit ''right''), Right),
     (delimited (lit ''left''), Left),
     (delimited (Alt (lit ''top'') (lit ''up'')), Top),
     (delimited (Alt (lit ''bottom'') (lit ''down'')), Bottom),
     (delimited (Alt (lit ''front'') (lit ''forward'')), Front),
     (delimited (Alt (lit ''back'') (lit ''backward'')), Back),

     (anywhere ''+x'', Right),
     (anywhere ''-x'', Left),
     (anywhere ''+y'', Top),
     (anywhere ''-y'', Bottom),
     (anywhere ''+z'', Front),
     (anywhere ''-z'', Back)]"

text \<open>
  The four families of rules, as the specification names them: the long forms with
  \<open>pos\<close> or \<open>neg\<close> and an axis, the two-letter forms, the directional words, and the
  unanchored sign and axis.
\<close>

definition long_forms :: "(RegExp \<times> CubeFace) list" where
  "long_forms =
    [(delimited (pos_axis CHR ''x''), Right), (delimited (neg_axis CHR ''x''), Left),
     (delimited (pos_axis CHR ''y''), Top), (delimited (neg_axis CHR ''y''), Bottom),
     (delimited (pos_axis CHR ''z''), Front), (delimited (neg_axis CHR ''z''), Back)]"

definition two_letter_forms :: "(RegExp \<times> CubeFace) list" where
  "two_letter_forms =
    map (\<lambda>(w, f). (delimited (lit w), f))
      [(''px'', Right), (''nx'', Left), (''py'', Top), (''ny'', Bottom), (''pz'', Front),
       (''nz'', Back)]"

definition directional_words :: "(RegExp \<times> CubeFace) list" where
  "directional_words =
    [(delimited (lit ''right''), Right), (delimited (lit ''left''), Left),
     (delimited (Alt (lit ''top'') (lit ''up'')), Top),
     (delimited (Alt (lit ''bottom'') (lit ''down'')), Bottom),
     (delimited (Alt (lit ''front'') (lit ''forward'')), Front),
     (delimited (Alt (lit ''back'') (lit ''backward'')), Back)]"

definition sign_axis_fallback :: "(RegExp \<times> CubeFace) list" where
  "sign_axis_fallback =
    map (\<lambda>(w, f). (anywhere w, f))
      [(''+x'', Right), (''-x'', Left), (''+y'', Top), (''-y'', Bottom), (''+z'', Front),
       (''-z'', Back)]"

text \<open>The extension pattern \<open>/\.[^.]+$/\<close>.\<close>

definition extension :: RegExp where
  "extension = \<lparr>pattern = Seq (Chr CHR ''.'') (Seq (NotClassPlus [CHR ''.'']) Eol),
     ignoreCase = False\<rparr>"

text \<open>The loop over the patterns: the face of the first one that matches.\<close>

fun first_match :: "(RegExp \<times> CubeFace) list \<Rightarrow> string \<Rightarrow> CubeFace option" where
  "first_match [] name = None"
| "first_match ((regex, face) # ps) name =
     (if regex_test regex name then Some face else first_match ps name)"

definition detectFaceFromFilename :: "string \<Rightarrow> CubeFace option" where
  "detectFaceFromFilename filename =
     (let name = replace (toLowerCase filename) extension [] in first_match patterns name)"

section \<open>Slots\<close>

text \<open>
  A slot holds its face and an image, a data URL or \<open>null\<close>. The source tests a slot
  with \<open>!slot.image\<close> and \<open>slot.image ? ... : ...\<close>: a slot counts as holding an image
  when the image is truthy, that is neither \<open>null\<close> nor the empty string.
\<close>

record FaceSlot =
  face :: CubeFace
  image :: "string option"

definition truthy :: "string option \<Rightarrow> bool" where
  "truthy img = (case img of None \<Rightarrow> False | Some u \<Rightarrow> u \<noteq> [])"

definition INITIAL_SLOTS :: "FaceSlot list" where
  "INITIAL_SLOTS =
    [\<lparr>face = Top, image = None\<rparr>,
     \<lparr>face = Left, image = None\<rparr>,
     \<lparr>face = Front, image = None\<rparr>,
     \<lparr>face = Right, image = None\<rparr>,
     \<lparr>face = Back, image = None\<rparr>,
     \<lparr>face = Bottom, image = None\<rparr>]"

text \<open>
  A file: its name, and the data URL that \<open>FileReader.readAsDataURL\<close> delivers for it
  (\<open>e.target.result\<close> in the \<open>onload\<close> handlers).
\<close>

record File =
  name :: string
  dataURL :: string

datatype error = TypeError

text \<open>\<open>Array.prototype.findIndex\<close> with a predicate on element and index; \<open>None\<close> is \<open>-1\<close>.\<close>

fun findIndex_from :: "('a \<Rightarrow> nat \<Rightarrow> bool) \<Rightarrow> nat \<Rightarrow> 'a list \<Rightarrow> nat option" where
  "findIndex_from p i [] = None"
| "findIndex_from p i (a # as) = (if p a i then Some i else findIndex_from p (Suc i) as)"

definition findIndex :: "('a \<Rightarrow> nat \<Rightarrow> bool) \<Rightarrow> 'a list \<Rightarrow> nat option" where
  "findIndex p as = findIndex_from p 0 as"

text \<open>\<open>Array.prototype.map\<close> with a callback on element and index.\<close>

fun map_from :: "('a \<Rightarrow> nat \<Rightarrow> 'b) \<Rightarrow> nat \<Rightarrow> 'a list \<Rightarrow> 'b list" where
  "map_from f i [] = []"
| "map_from f i (a # as) = f a i # map_from f (Suc i) as"

definition map_index :: "('a \<Rightarrow> nat \<Rightarrow> 'b) \<Rightarrow> 'a list \<Rightarrow> 'b list" where
  "map_index f as = map_from f 0 as"

section \<open>Asynchronous completion\<close>

text \<open>
  A handler that starts asynchronous work (reading a file, decoding an image) returns the
  list of the \<open>onload\<close> callbacks it has registered. The browser runs them later, one at a
  time, in the order in which the reads or decodes finish, and a read or decode that
  fails never runs its callback. A schedule is a list of positions in the list of the
  callbacks still pending: \<open>run_pending\<close> runs them in that order and returns the state
  and the callbacks that have not run. Every order of completion of every subset of the
  callbacks is the run of some schedule.
\<close>

fun run_pending :: "nat list \<Rightarrow> ('s \<Rightarrow> 's) list \<Rightarrow> 's \<Rightarrow> 's \<times> ('s \<Rightarrow> 's) list" where
  "run_pending [] cbs s = (s, cbs)"
| "run_pending (k # ks) cbs s =
     (if k < length cbs
      then run_pending ks (take k cbs @ drop (Suc k) cbs) ((cbs ! k) s)
      else run_pending ks cbs s)"

section \<open>The slot assignment engine\<close>

text \<open>The state update of \<open>handleFileChange\<close>, run when the file has been read.\<close>

definition assign_onload :: "nat \<Rightarrow> File \<Rightarrow> FaceSlot list \<Rightarrow> FaceSlot list" where
  "assign_onload index file prev =
     map_index (\<lambda>slot i. if i = index then slot\<lparr>image := Some (dataURL file)\<rparr> else slot) prev"

definition handleFileChange :: "nat \<Rightarrow> File option \<Rightarrow> (FaceSlot list \<Rightarrow> FaceSlot list) list" where
  "handleFileChange index file =
     (case file of None \<Rightarrow> [] | Some f \<Rightarrow> [assign_onload index f])"

text \<open>The state update of \<open>handleBulkUpload\<close> when some file has a recognised name.\<close>

definition detected_onload :: "File \<Rightarrow> CubeFace option \<Rightarrow> FaceSlot list \<Rightarrow> FaceSlot list" where
  "detected_onload file detected prev =
     (case detected of
        Some f \<Rightarrow>
          map (\<lambda>slot. if face slot = f then slot\<lparr>image := Some (dataURL file)\<rparr> else slot) prev
      | None \<Rightarrow>
          (case findIndex (\<lambda>s i. \<not> truthy (image s)) prev of
             None \<Rightarrow> prev
           | Some emptyIndex \<Rightarrow>
               map_index (\<lambda>slot i. if i = emptyIndex
                  then slot\<lparr>image := Some (dataURL file)\<rparr> else slot) prev))"

text \<open>The state update of \<open>handleBulkUpload\<close> when no file has a recognised name.\<close>

definition sequential_onload :: "File \<Rightarrow> nat \<Rightarrow> FaceSlot list \<Rightarrow> FaceSlot list" where
  "sequential_onload file fileIndex prev =
     (let emptyIndex = findIndex (\<lambda>s i. \<not> truthy (image s) \<and> i \<ge> fileIndex) prev;
          targetIndex = (case emptyIndex of Some e \<Rightarrow> e | None \<Rightarrow> fileIndex)
      in map_index (\<lambda>slot i. if i = targetIndex \<and> \<not> truthy (image slot)
            then slot\<lparr>image := Some (dataURL file)\<rparr> else slot) prev)"

definition handleBulkUpload :: "File list option \<Rightarrow> (FaceSlot list \<Rightarrow> FaceSlot list) list" where
  "handleBulkUpload files =
     (case files of
        None \<Rightarrow> []
      | Some fs \<Rightarrow>
          (let fileArray = take 6 fs;
               detectedMappings = map (\<lambda>file. (file, detectFaceFromFilename (name file))) fileArray;
               hasDetectedFaces = list_ex (\<lambda>m. snd m \<noteq> None) detectedMappings
           in if hasDetectedFaces
              then map (\<lambda>(file, detected). detected_onload file detected) detectedMappings
              else map_index (\<lambda>file fileIndex. sequential_onload file fileIndex) fileArray))"

text \<open>
  The exchange of two images in \<open>handleDrop\<close> (and in the touch handler). Reading
  \<open>.image\<close> of a slot that does not exist throws.
\<close>

definition swap :: "nat \<Rightarrow> nat \<Rightarrow> FaceSlot list \<Rightarrow> error + FaceSlot list" where
  "swap draggedIndex targetIndex prev =
     (if draggedIndex < length prev \<and> targetIndex < length prev
      then
        (let newSlots = prev;
             draggedImage = image (newSlots ! draggedIndex);
             newSlots = newSlots[draggedIndex :=
               (newSlots ! draggedIndex)\<lparr>image := image (newSlots ! targetIndex)\<rparr>];
             newSlots = newSlots[targetIndex :=
               (newSlots ! targetIndex)\<lparr>image := draggedImage\<rparr>]
         in Inr newSlots)
      else Inl TypeError)"

text \<open>
  The state of the page that the handlers read and set. The selected layout is one of
  the keys of the layout registry, a string.
\<close>

type_synonym ExportFormat = string

record AppState =
  slots :: "FaceSlot list"
  exportFormat :: ExportFormat
  draggedIndex :: "nat option"
  dragOverIndex :: "nat option"
  isDraggingFile :: bool

text \<open>
  \<open>handleDrop\<close>, with the files of the drop event. It returns the new state and the
  callbacks registered.
\<close>

definition handleDrop ::
  "File list \<Rightarrow> nat \<Rightarrow> AppState \<Rightarrow> error + AppState \<times> (FaceSlot list \<Rightarrow> FaceSlot list) list" where
  "handleDrop files targetIndex st =
     (let st1 = st\<lparr>dragOverIndex := None, isDraggingFile := False\<rparr>
      in case files of
           f # _ \<Rightarrow> Inr (st1\<lparr>draggedIndex := None\<rparr>, handleFileChange targetIndex (Some f))
         | [] \<Rightarrow>
           (case draggedIndex st of
              None \<Rightarrow> Inr (st1\<lparr>draggedIndex := None\<rparr>, [])
            | Some d \<Rightarrow>
                if d \<noteq> targetIndex
                then (case swap d targetIndex (slots st1) of
                        Inl e \<Rightarrow> Inl e
                      | Inr newSlots \<Rightarrow> Inr (st1\<lparr>slots := newSlots, draggedIndex := None\<rparr>, []))
                else Inr (st1\<lparr>draggedIndex := None\<rparr>, [])))"

definition handleGlobalDrop ::
  "File list \<Rightarrow> AppState \<Rightarrow> AppState \<times> (FaceSlot list \<Rightarrow> FaceSlot list) list" where
  "handleGlobalDrop files st =
     (let st1 = st\<lparr>isDraggingFile := False\<rparr>
      in if length files > 1 then (st1, handleBulkUpload (Some files)) else (st1, []))"

text \<open>
  A drop on a slot: the slot's \<open>onDrop\<close> handler runs, and the event then reaches the
  \<open>onDrop\<close> handler of the enclosing container, since \<open>handleDrop\<close> does not stop it.
\<close>

definition drop_on_slot ::
  "File list \<Rightarrow> nat \<Rightarrow> AppState \<Rightarrow> error + AppState \<times> (FaceSlot list \<Rightarrow> FaceSlot list) list" where
  "drop_on_slot files targetIndex st =
     (case handleDrop files targetIndex st of
        Inl e \<Rightarrow> Inl e
      | Inr (st1, cbs1) \<Rightarrow>
          (case handleGlobalDrop files st1 of (st2, cbs2) \<Rightarrow> Inr (st2, cbs1 @ cbs2)))"

definition clearSlot :: "nat \<Rightarrow> FaceSlot list \<Rightarrow> FaceSlot list" where
  "clearSlot index prev = map_index (\<lambda>slot i. if i = index then slot\<lparr>image := None\<rparr> else slot) prev"

definition clearAll :: "FaceSlot list \<Rightarrow> FaceSlot list" where
  "clearAll prev = INITIAL_SLOTS"

section \<open>Layouts\<close>

text \<open>
  A layout: its display name, its size in face units, and the cell of each face. A
  position \<open>{ x: c, y: r }\<close> is the pair \<open>(c, r)\<close>; the object literals of the source are
  association lists, in the order in which the source writes their keys.
\<close>

record FormatConfig =
  format_name :: string
  width :: nat
  height :: nat
  positions :: "(CubeFace \<times> nat \<times> nat) list"

definition EXPORT_FORMATS :: "(ExportFormat \<times> FormatConfig) list" where
  "EXPORT_FORMATS =
    [(''cross'',
      \<lparr>format_name = ''Cross (Horizontal)'', width = 4, height = 3,
       positions = [(Top, (1, 0)), (Left, (0, 1)), (Front, (1, 1)),
                    (Right, (2, 1)), (Back, (3, 1)), (Bottom, (1, 2))]\<rparr>),
     (''cross-vertical'',
      \<lparr>format_name = ''Cross (Vertical)'', width = 3, height = 4,
       positions = [(Top, (1, 0)), (Left, (0, 1)), (Front, (1, 1)),
                    (Right, (2, 1)), (Bottom, (1, 2)), (Back, (1, 3))]\<rparr>),
     (''strip-horizontal'',
      \<lparr>format_name = ''Strip (Horizontal)'', width = 6, height = 1,
       positions = [(Right, (0, 0)), (Left, (1, 0)), (Top, (2, 0)),
                    (Bottom, (3, 0)), (Front, (4, 0)), (Back, (5, 0))]\<rparr>),
     (''strip-vertical'',
      \<lparr>format_name = ''Strip (Vertical)'', width = 1, height = 6,
       positions = [(Right, (0, 0)), (Left, (0, 1)), (Top, (0, 2)),
                    (Bottom, (0, 3)), (Front, (0, 4)), (Back, (0, 5))]\<rparr>),
     (''grid-3x2'',
      \<lparr>format_name = ''Grid (3'' @ [CHR 0xD7] @ ''2)'', width = 3, height = 2,
       positions = [(Right, (0, 0)), (Left, (1, 0)), (Top, (2, 0)),
                    (Bottom, (0, 1)), (Front, (1, 1)), (Back, (2, 1))]\<rparr>),
     (''grid-2x3'',
      \<lparr>format_name = ''Grid (2'' @ [CHR 0xD7] @ ''3)'', width = 2, height = 3,
       positions = [(Right, (0, 0)), (Left, (1, 0)), (Top, (0, 1)),
                    (Bottom, (1, 1)), (Front, (0, 2)), (Back, (1, 2))]\<rparr>)]"

text \<open>
  The registry as the specification enumerates it: key, width and height in cells, and
  the cell (column, row) of each face, in the specification's order.
\<close>

definition spec_layouts :: "(string \<times> nat \<times> nat \<times> (CubeFace \<times> nat \<times> nat) list) list" where
  "spec_layouts =
    [(''cross'', 4, 3,
        [(Top, (1, 0)), (Left, (0, 1)), (Front, (1, 1)), (Right, (2, 1)), (Back, (3, 1)),
         (Bottom, (1, 2))]),
     (''cross-vertical'', 3, 4,
        [(Top, (1, 0)), (Left, (0, 1)), (Front, (1, 1)), (Right, (2, 1)), (Bottom, (1, 2)),
         (Back, (1, 3))]),
     (''strip-horizontal'', 6, 1,
        [(Right, (0, 0)), (Left, (1, 0)), (Top, (2, 0)), (Bottom, (3, 0)), (Front, (4, 0)),
         (Back, (5, 0))]),
     (''strip-vertical'', 1, 6,
        [(Right, (0, 0)), (Left, (0, 1)), (Top, (0, 2)), (Bottom, (0, 3)), (Front, (0, 4)),
         (Back, (0, 5))]),
     (''grid-3x2'', 3, 2,
        [(Right, (0, 0)), (Left, (1, 0)), (Top, (2, 0)), (Bottom, (0, 1)), (Front, (1, 1)),
         (Back, (2, 1))]),
     (''grid-2x3'', 2, 3,
        [(Right, (0, 0)), (Left, (1, 0)), (Top, (0, 1)), (Bottom, (1, 1)), (Front, (0, 2)),
         (Back, (1, 2))])]"

text \<open>The six faces.\<close>

definition all_faces :: "CubeFace list" where
  "all_faces = [Top, Left, Front, Right, Back, Bottom]"

text \<open>
  What the data model asks of a layout: every face has a cell, no two faces share one,
  and every cell lies inside the grid.
\<close>

definition layout_ok :: "FormatConfig \<Rightarrow> bool" where
  "layout_ok format =
     (list_all (\<lambda>f. map_of (positions format) f \<noteq> None) all_faces \<and>
      distinct (map (\<lambda>f. map_of (positions format) f) all_faces) \<and>
      list_all (\<lambda>f. case map_of (positions format) f of
                      None \<Rightarrow> False
                    | Some (x, y) \<Rightarrow> x < width format \<and> y < height format) all_faces)"

section \<open>The compositor\<close>

text \<open>
  The canvas: its size in pixels and the \<open>drawImage\<close> calls made on it since it was
  cleared, oldest first, each with the image and the destination rectangle \<open>dx, dy, dw,
  dh\<close>. Decoding and scaling an image are left opaque: what is recorded of a pixel is
  the images drawn over it. A pixel with none is fully transparent.
\<close>

record Canvas =
  canvas_width :: nat
  canvas_height :: nat
  drawn :: "(string \<times> nat \<times> nat \<times> nat \<times> nat) list"

definition drawImage :: "string \<Rightarrow> nat \<Rightarrow> nat \<Rightarrow> nat \<Rightarrow> nat \<Rightarrow> Canvas \<Rightarrow> Canvas" where
  "drawImage img dx dy dw dh c = c\<lparr>drawn := drawn c @ [(img, dx, dy, dw, dh)]\<rparr>"

definition covers :: "string \<times> nat \<times> nat \<times> nat \<times> nat \<Rightarrow> nat \<Rightarrow> nat \<Rightarrow> bool" where
  "covers d px py =
     (case d of (img, dx, dy, dw, dh) \<Rightarrow> dx \<le> px \<and> px < dx + dw \<and> dy \<le> py \<and> py < dy + dh)"

definition layers_at :: "Canvas \<Rightarrow> nat \<Rightarrow> nat \<Rightarrow> string list" where
  "layers_at c px py =
     (if px < canvas_width c \<and> py < canvas_height c
      then map fst (filter (\<lambda>d. covers d px py) (drawn c))
      else [])"

text \<open>
  What an export does that can be observed, in order. \<open>ToBlob\<close> hands the canvas, as it is
  at that moment, to the encoder, whose callback downloads the result.
\<close>

datatype Effect =
    CreateCanvas nat nat
  | GetContext
  | ClearRect nat nat nat nat
  | Alert string
  | Uncaught error
  | ToBlob Canvas string

record ExportRun =
  log :: "Effect list"
  canvas :: Canvas
  imagesLoaded :: nat
  totalImages :: nat

definition FACE_SIZE :: nat where
  "FACE_SIZE = 512"

text \<open>The \<open>onload\<close> handler of the image of one slot.\<close>

definition img_onload :: "FormatConfig \<Rightarrow> FaceSlot \<Rightarrow> string \<Rightarrow> ExportRun \<Rightarrow> ExportRun" where
  "img_onload format slot img st =
     (case map_of (positions format) (face slot) of
        None \<Rightarrow> st\<lparr>log := log st @ [Uncaught TypeError]\<rparr>
      | Some (x, y) \<Rightarrow>
          (let st1 = st\<lparr>canvas :=
                 drawImage img (x * FACE_SIZE) (y * FACE_SIZE) FACE_SIZE FACE_SIZE (canvas st)\<rparr>;
               st2 = st1\<lparr>imagesLoaded := imagesLoaded st1 + 1\<rparr>
           in if imagesLoaded st2 = totalImages st2
              then st2\<lparr>log := log st2 @ [ToBlob (canvas st2) ''image/png'']\<rparr>
              else st2))"

text \<open>The body of \<open>slots.forEach\<close>: nothing for an empty slot, one image to load otherwise.\<close>

definition slot_onload :: "FormatConfig \<Rightarrow> FaceSlot \<Rightarrow> (ExportRun \<Rightarrow> ExportRun) list" where
  "slot_onload format slot =
     (case image slot of
        None \<Rightarrow> []
      | Some img \<Rightarrow> if img = [] then [] else [img_onload format slot img])"

text \<open>
  \<open>exportCubemap\<close>, with whether the browser provides a 2D context and the state of the
  page, of which it reads the slots and the selected layout. It returns the state of the
  export after the synchronous part and the \<open>onload\<close> handlers registered.
\<close>

definition exportCubemap ::
  "bool \<Rightarrow> AppState \<Rightarrow> error + ExportRun \<times> (ExportRun \<Rightarrow> ExportRun) list" where
  "exportCubemap has_context st =
     (case map_of EXPORT_FORMATS (exportFormat st) of
        None \<Rightarrow> Inl TypeError
      | Some format \<Rightarrow>
          (let cv = \<lparr>canvas_width = FACE_SIZE * width format,
                     canvas_height = FACE_SIZE * height format, drawn = []\<rparr>;
               run = \<lparr>log = [CreateCanvas (canvas_width cv) (canvas_height cv), GetContext],
                      canvas = cv, imagesLoaded = 0, totalImages = 0\<rparr>
           in if \<not> has_context then Inr (run, [])
              else
                (let run = run\<lparr>log := log run @
                             [ClearRect 0 0 (canvas_width cv) (canvas_height cv)]\<rparr>;
                     run = run\<lparr>totalImages :=
                             length (filter (\<lambda>s. truthy (image s)) (slots st))\<rparr>
                 in if totalImages run = 0
                    then Inr (run\<lparr>log := log run @
                           [Alert ''Please add at least one image before exporting.'']\<rparr>, [])
                    else Inr (run, concat (map (slot_onload format) (slots st))))))"

section \<open>Observations and examples\<close>

text \<open>
  The effects of the synchronous part of an export, in order; an exception thrown there
  is the one effect.
\<close>

definition export_log :: "bool \<Rightarrow> AppState \<Rightarrow> Effect list" where
  "export_log has_context st =
     (case exportCubemap has_context st of
        Inl e \<Rightarrow> [Uncaught e]
      | Inr (run, cbs) \<Rightarrow> log run)"

fun is_alert :: "Effect \<Rightarrow> bool" where
  "is_alert (Alert msg) = True"
| "is_alert e = False"

fun is_allocation :: "Effect \<Rightarrow> bool" where
  "is_allocation (CreateCanvas w h) = True"
| "is_allocation e = False"

fun is_completion :: "Effect \<Rightarrow> bool" where
  "is_completion (ToBlob c mime) = True"
| "is_completion e = False"

text \<open>A canvas is allocated before the alert is raised.\<close>

definition allocation_before_alert :: "Effect list \<Rightarrow> bool" where
  "allocation_before_alert lg = list_ex is_allocation (takeWhile (\<lambda>e. \<not> is_alert e) lg)"

text \<open>The state of the page when it is loaded.\<close>

definition initial_state :: AppState where
  "initial_state = \<lparr>slots = INITIAL_SLOTS, exportFormat = ''cross'', draggedIndex = None,
     dragOverIndex = None, isDraggingFile = False\<rparr>"

text \<open>A state of the slots with two images, in Top and in Front.\<close>

definition example_slots :: "FaceSlot list" where
  "example_slots =
    [\<lparr>face = Top, image = Some ''data:sky''\<rparr>,
     \<lparr>face = Left, image = None\<rparr>,
     \<lparr>face = Front, image = Some ''data:hill''\<rparr>,
     \<lparr>face = Right, image = None\<rparr>,
     \<lparr>face = Back, image = None\<rparr>,
     \<lparr>face = Bottom, image = None\<rparr>]"

text \<open>
  A state of the slots keeps the filled slots of an earlier one: the same number of
  slots, and every slot that held an image then is as it was.
\<close>

definition keeps_filled :: "FaceSlot list \<Rightarrow> FaceSlot list \<Rightarrow> bool" where
  "keeps_filled old new =
     (length new = length old \<and>
      list_all (\<lambda>j. \<not> truthy (image (old ! j)) \<or> new ! j = old ! j) [0 ..< length old])"

text \<open>Two files named for the faces Right and Left, and three files with no face in their names.\<close>

definition sky_px :: "string \<Rightarrow> File" where
  "sky_px a = \<lparr>name = ''sky_px.png'', dataURL = a\<rparr>"

definition sky_nx :: "string \<Rightarrow> File" where
  "sky_nx b = \<lparr>name = ''sky_nx.png'', dataURL = b\<rparr>"

definition abc_files :: "File list" where
  "abc_files =
    [\<lparr>name = ''a.png'', dataURL = ''data:a''\<rparr>,
     \<lparr>name = ''b.png'', dataURL = ''data:b''\<rparr>,
     \<lparr>name = ''c.png'', dataURL = ''data:c''\<rparr>]"

text \<open>A file with no face in its name, followed by one named for the face Right.\<close>

definition mixed_files :: "File list" where
  "mixed_files = [\<lparr>name = ''clouds.png'', dataURL = ''data:clouds''\<rparr>, sky_px ''data:px'']"

text \<open>The image that a slot passes to the decoder: its data URL.\<close>

definition slot_image :: "FaceSlot \<Rightarrow> string" where
  "slot_image s = (case image s of None \<Rightarrow> [] | Some img \<Rightarrow> img)"

text \<open>
  The cell of the output as the specification describes it: the image of the slot whose
  face the layout maps to column \<open>col\<close> and row \<open>row\<close>, when that slot holds an image; no
  image (a transparent cell) otherwise.
\<close>

definition spec_cell :: "FormatConfig \<Rightarrow> FaceSlot list \<Rightarrow> nat \<Rightarrow> nat \<Rightarrow> string option" where
  "spec_cell format ss col row =
     (case filter (\<lambda>s. truthy (image s) \<and> map_of (positions format) (face s) = Some (col, row)) ss of
        [] \<Rightarrow> None
      | s # _ \<Rightarrow> image s)"

text \<open>The \<open>drawImage\<close> call that the \<open>onload\<close> handler of a slot makes.\<close>

definition draw_of :: "FormatConfig \<Rightarrow> FaceSlot \<Rightarrow> string \<times> nat \<times> nat \<times> nat \<times> nat" where
  "draw_of format s =
     (case map_of (positions format) (face s) of
        None \<Rightarrow> (slot_image s, 0, 0, 0, 0)
      | Some (x, y) \<Rightarrow> (slot_image s, x * FACE_SIZE, y * FACE_SIZE, FACE_SIZE, FACE_SIZE))"

text \<open>
  The state of an export in progress, for the slots \<open>filled\<close> that held an image when it
  started and the slots \<open>pending\<close> whose image has not been decoded yet: the images of
  the other slots have been drawn and counted, and the canvas has been handed to the
  encoder exactly when nothing is pending, as it is now.
\<close>

definition export_inv ::
  "FormatConfig \<Rightarrow> FaceSlot list \<Rightarrow> ExportRun \<Rightarrow> FaceSlot list \<Rightarrow> bool" where
  "export_inv format filled run pending =
     (\<exists>fired. mset fired + mset pending = mset filled
        \<and> mset (drawn (canvas run)) = mset (map (draw_of format) fired)
        \<and> imagesLoaded run = length fired
        \<and> totalImages run = length filled
        \<and> canvas_width (canvas run) = FACE_SIZE * width format
        \<and> canvas_height (canvas run) = FACE_SIZE * height format
        \<and> (if pending = []
            then filter is_completion (log run) = [ToBlob (canvas run) ''image/png'']
            else filter is_completion (log run) = []))"

text \<open>The layout \<open>cross\<close>, and the state of the page with one image, in Front.\<close>

definition cross_format :: FormatConfig where
  "cross_format =
     \<lparr>format_name = ''Cross (Horizontal)'', width = 4, height = 3,
      positions = [(Top, (1, 0)), (Left, (0, 1)), (Front, (1, 1)),
                   (Right, (2, 1)), (Back, (3, 1)), (Bottom, (1, 2))]\<rparr>"

definition front_only :: "string \<Rightarrow> AppState" where
  "front_only img =
     \<lparr>slots = INITIAL_SLOTS[2 := \<lparr>face = Front, image = Some img\<rparr>], exportFormat = ''cross'',
      draggedIndex = None, dragOverIndex = None, isDraggingFile = False\<rparr>"

text \<open>
  The state of the page with the two images of \<open>example_slots\<close>, under \<open>cross\<close>; its export
  after the synchronous part, and its two handlers.
\<close>

definition two_images :: AppState where
  "two_images = \<lparr>slots = example_slots, exportFormat = ''cross'', draggedIndex = None,
     dragOverIndex = None, isDraggingFile = False\<rparr>"

definition two_run0 :: ExportRun where
  "two_run0 =
     \<lparr>log = [CreateCanvas 2048 1536, GetContext, ClearRect 0 0 2048 1536],
      canvas = \<lparr>canvas_width = 2048, canvas_height = 1536, drawn = []\<rparr>,
      imagesLoaded = 0, totalImages = 2\<rparr>"

definition two_cbs :: "(ExportRun \<Rightarrow> ExportRun) list" where
  "two_cbs =
     [img_onload cross_format \<lparr>face = Top, image = Some ''data:sky''\<rparr> ''data:sky'',
      img_onload cross_format \<lparr>face = Front, image = Some ''data:hill''\<rparr> ''data:hill'']"

text \<open>The export of \<open>front_only img\<close> after its synchronous part, and its one handler.\<close>

definition front_run0 :: ExportRun where
  "front_run0 =
     \<lparr>log = [CreateCanvas 2048 1536, GetContext, ClearRect 0 0 2048 1536],
      canvas = \<lparr>canvas_width = 2048, canvas_height = 1536, drawn = []\<rparr>,
      imagesLoaded = 0, totalImages = 1\<rparr>"

definition front_cbs :: "string \<Rightarrow> (ExportRun \<Rightarrow> ExportRun) list" where
  "front_cbs img = [img_onload cross_format \<lparr>face = Front, image = Some img\<rparr> img]"

section \<open>Properties of the classifier\<close>

subsection \<open>Evaluation of characters\<close>

lemma char_of_nat_bits:
  "char_of (n::nat) = Char (odd n) (odd (n div 2)) (odd (n div 4)) (odd (n div 8))
     (odd (n div 16)) (odd (n div 32)) (odd (n div 64)) (odd (n div 128))"
  by (simp add: char_of_def bit_iff_odd)

lemma toLowerCase_char_table:
  "toLowerCase_char CHR ''a'' = CHR ''a''" "toLowerCase_char CHR ''b'' = CHR ''b''"
  "toLowerCase_char CHR ''c'' = CHR ''c''" "toLowerCase_char CHR ''d'' = CHR ''d''"
  "toLowerCase_char CHR ''e'' = CHR ''e''" "toLowerCase_char CHR ''f'' = CHR ''f''"
  "toLowerCase_char CHR ''g'' = CHR ''g''" "toLowerCase_char CHR ''h'' = CHR ''h''"
  "toLowerCase_char CHR ''i'' = CHR ''i''" "toLowerCase_char CHR ''j'' = CHR ''j''"
  "toLowerCase_char CHR ''k'' = CHR ''k''" "toLowerCase_char CHR ''l'' = CHR ''l''"
  "toLowerCase_char CHR ''m'' = CHR ''m''" "toLowerCase_char CHR ''n'' = CHR ''n''"
  "toLowerCase_char CHR ''o'' = CHR ''o''" "toLowerCase_char CHR ''p'' = CHR ''p''"
  "toLowerCase_char CHR ''q'' = CHR ''q''" "toLowerCase_char CHR ''r'' = CHR ''r''"
  "toLowerCase_char CHR ''s'' = CHR ''s''" "toLowerCase_char CHR ''t'' = CHR ''t''"
  "toLowerCase_char CHR ''u'' = CHR ''u''" "toLowerCase_char CHR ''v'' = CHR ''v''"
  "toLowerCase_char CHR ''w'' = CHR ''w''" "toLowerCase_char CHR ''x'' = CHR ''x''"
  "toLowerCase_char CHR ''y'' = CHR ''y''" "toLowerCase_char CHR ''z'' = CHR ''z''"
  "toLowerCase_char CHR ''A'' = CHR ''a''" "toLowerCase_char CHR ''B'' = CHR ''b''"
  "toLowerCase_char CHR ''C'' = CHR ''c''" "toLowerCase_char CHR ''D'' = CHR ''d''"
  "toLowerCase_char CHR ''E'' = CHR ''e''" "toLowerCase_char CHR ''F'' = CHR ''f''"
  "toLowerCase_char CHR ''G'' = CHR ''g''" "toLowerCase_char CHR ''H'' = CHR ''h''"
  "toLowerCase_char CHR ''I'' = CHR ''i''" "toLowerCase_char CHR ''J'' = CHR ''j''"
  "toLowerCase_char CHR ''K'' = CHR ''k''" "toLowerCase_char CHR ''L'' = CHR ''l''"
  "toLowerCase_char CHR ''M'' = CHR ''m''" "toLowerCase_char CHR ''N'' = CHR ''n''"
  "toLowerCase_char CHR ''O'' = CHR ''o''" "toLowerCase_char CHR ''P'' = CHR ''p''"
  "toLowerCase_char CHR ''Q'' = CHR ''q''" "toLowerCase_char CHR ''R'' = CHR ''r''"
  "toLowerCase_char CHR ''S'' = CHR ''s''" "toLowerCase_char CHR ''T'' = CHR ''t''"
  "toLowerCase_char CHR ''U'' = CHR ''u''" "toLowerCase_char CHR ''V'' = CHR ''v''"
  "toLowerCase_char CHR ''W'' = CHR ''w''" "toLowerCase_char CHR ''X'' = CHR ''x''"
  "toLowerCase_char CHR ''Y'' = CHR ''y''" "toLowerCase_char CHR ''Z'' = CHR ''z''"
  "toLowerCase_char CHR ''0'' = CHR ''0''" "toLowerCase_char CHR ''1'' = CHR ''1''"
  "toLowerCase_char CHR ''2'' = CHR ''2''" "toLowerCase_char CHR ''3'' = CHR ''3''"
  "toLowerCase_char CHR ''4'' = CHR ''4''" "toLowerCase_char CHR ''5'' = CHR ''5''"
  "toLowerCase_char CHR ''6'' = CHR ''6''" "toLowerCase_char CHR ''7'' = CHR ''7''"
  "toLowerCase_char CHR ''8'' = CHR ''8''" "toLowerCase_char CHR ''9'' = CHR ''9''"
  "toLowerCase_char CHR ''.'' = CHR ''.''" "toLowerCase_char CHR ''_'' = CHR ''_''"
  "toLowerCase_char CHR ''-'' = CHR ''-''" "toLowerCase_char CHR ''+'' = CHR ''+''"
  "toLowerCase_char CHR '' '' = CHR '' ''"
  by (simp_all add: toLowerCase_char_def char_of_nat_bits)

lemma canonicalize_table:
  "canonicalize True CHR ''a'' = CHR ''A''" "canonicalize True CHR ''b'' = CHR ''B''"
  "canonicalize True CHR ''c'' = CHR ''C''" "canonicalize True CHR ''d'' = CHR ''D''"
  "canonicalize True CHR ''e'' = CHR ''E''" "canonicalize True CHR ''f'' = CHR ''F''"
  "canonicalize True CHR ''g'' = CHR ''G''" "canonicalize True CHR ''h'' = CHR ''H''"
  "canonicalize True CHR ''i'' = CHR ''I''" "canonicalize True CHR ''j'' = CHR ''J''"
  "canonicalize True CHR ''k'' = CHR ''K''" "canonicalize True CHR ''l'' = CHR ''L''"
  "canonicalize True CHR ''m'' = CHR ''M''" "canonicalize True CHR ''n'' = CHR ''N''"
  "canonicalize True CHR ''o'' = CHR ''O''" "canonicalize True CHR ''p'' = CHR ''P''"
  "canonicalize True CHR ''q'' = CHR ''Q''" "canonicalize True CHR ''r'' = CHR ''R''"
  "canonicalize True CHR ''s'' = CHR ''S''" "canonicalize True CHR ''t'' = CHR ''T''"
  "canonicalize True CHR ''u'' = CHR ''U''" "canonicalize True CHR ''v'' = CHR ''V''"
  "canonicalize True CHR ''w'' = CHR ''W''" "canonicalize True CHR ''x'' = CHR ''X''"
  "canonicalize True CHR ''y'' = CHR ''Y''" "canonicalize True CHR ''z'' = CHR ''Z''"
  "canonicalize True CHR ''A'' = CHR ''A''" "canonicalize True CHR ''B'' = CHR ''B''"
  "canonicalize True CHR ''C'' = CHR ''C''" "canonicalize True CHR ''D'' = CHR ''D''"
  "canonicalize True CHR ''E'' = CHR ''E''" "canonicalize True CHR ''F'' = CHR ''F''"
  "canonicalize True CHR ''G'' = CHR ''G''" "canonicalize True CHR ''H'' = CHR ''H''"
  "canonicalize True CHR ''I'' = CHR ''I''" "canonicalize True CHR ''J'' = CHR ''J''"
  "canonicalize True CHR ''K'' = CHR ''K''" "canonicalize True CHR ''L'' = CHR ''L''"
  "canonicalize True CHR ''M'' = CHR ''M''" "canonicalize True CHR ''N'' = CHR ''N''"
  "canonicalize True CHR ''O'' = CHR ''O''" "canonicalize True CHR ''P'' = CHR ''P''"
  "canonicalize True CHR ''Q'' = CHR ''Q''" "canonicalize True CHR ''R'' = CHR ''R''"
  "canonicalize True CHR ''S'' = CHR ''S''" "canonicalize True CHR ''T'' = CHR ''T''"
  "canonicalize True CHR ''U'' = CHR ''U''" "canonicalize True CHR ''V'' = CHR ''V''"
  "canonicalize True CHR ''W'' = CHR ''W''" "canonicalize True CHR ''X'' = CHR ''X''"
  "canonicalize True CHR ''Y'' = CHR ''Y''" "canonicalize True CHR ''Z'' = CHR ''Z''"
  "canonicalize True CHR ''0'' = CHR ''0''" "canonicalize True CHR ''1'' = CHR ''1''"
  "canonicalize True CHR ''2'' = CHR ''2''" "canonicalize True CHR ''3'' = CHR ''3''"
  "canonicalize True CHR ''4'' = CHR ''4''" "canonicalize True CHR ''5'' = CHR ''5''"
  "canonicalize True CHR ''6'' = CHR ''6''" "canonicalize True CHR ''7'' = CHR ''7''"
  "canonicalize True CHR ''8'' = CHR ''8''" "canonicalize True CHR ''9'' = CHR ''9''"
  "canonicalize True CHR ''.'' = CHR ''.''" "canonicalize True CHR ''_'' = CHR ''_''"
  "canonicalize True CHR ''-'' = CHR ''-''" "canonicalize True CHR ''+'' = CHR ''+''"
  "canonicalize True CHR '' '' = CHR '' ''"
  by (simp_all add: canonicalize_def char_of_nat_bits)

lemmas classify_eval = detectFaceFromFilename_def toLowerCase_def toLowerCase_char_table
  canonicalize_table replace_def extension_def regex_test_def patterns_def
  delimited_def anywhere_def pos_axis_def neg_axis_def lead_def trail_def sep_def whitespace_def

subsection \<open>The first matching rule\<close>

lemma first_match_None_iff:
  "first_match ps nm = None \<longleftrightarrow> (\<forall>k<length ps. \<not> regex_test (fst (ps ! k)) nm)"
proof (induction ps)
  case Nil
  show ?case by simp
next
  case (Cons p ps)
  obtain re f where p: "p = (re, f)" by (cases p)
  show ?case
    unfolding p using Cons.IH by (auto simp: nth_Cons split: nat.splits)
qed

lemma first_match_Some_iff:
  "first_match ps nm = Some f \<longleftrightarrow>
     (\<exists>k<length ps. snd (ps ! k) = f \<and> regex_test (fst (ps ! k)) nm
        \<and> (\<forall>j<k. \<not> regex_test (fst (ps ! j)) nm))"
proof (induction ps)
  case Nil
  show ?case by simp
next
  case (Cons p ps)
  obtain re g where p: "p = (re, g)" by (cases p)
  show ?case
  proof (cases "regex_test re nm")
    case True
    have "(\<exists>k<length (p # ps). snd ((p # ps) ! k) = f \<and> regex_test (fst ((p # ps) ! k)) nm
        \<and> (\<forall>j<k. \<not> regex_test (fst ((p # ps) ! j)) nm)) \<longleftrightarrow> g = f"
    proof
      assume "\<exists>k<length (p # ps). snd ((p # ps) ! k) = f \<and> regex_test (fst ((p # ps) ! k)) nm
        \<and> (\<forall>j<k. \<not> regex_test (fst ((p # ps) ! j)) nm)"
      then obtain k where k: "snd ((p # ps) ! k) = f"
        and first: "\<forall>j<k. \<not> regex_test (fst ((p # ps) ! j)) nm" by blast
      have "k = 0"
      proof (rule ccontr)
        assume "k \<noteq> 0"
        then have "\<not> regex_test (fst ((p # ps) ! 0)) nm" using first by blast
        then show False using True by (simp add: p)
      qed
      then show "g = f" using k by (simp add: p)
    next
      assume "g = f"
      then have "snd ((p # ps) ! 0) = f \<and> regex_test (fst ((p # ps) ! 0)) nm
        \<and> (\<forall>j<0. \<not> regex_test (fst ((p # ps) ! j)) nm)" using True by (simp add: p)
      then show "\<exists>k<length (p # ps). snd ((p # ps) ! k) = f \<and> regex_test (fst ((p # ps) ! k)) nm
        \<and> (\<forall>j<k. \<not> regex_test (fst ((p # ps) ! j)) nm)" by (intro exI[of _ 0]) simp
    qed
    then show ?thesis using True by (simp add: p)
  next
    case False
    have "(\<exists>k<length (p # ps). snd ((p # ps) ! k) = f \<and> regex_test (fst ((p # ps) ! k)) nm
        \<and> (\<forall>j<k. \<not> regex_test (fst ((p # ps) ! j)) nm)) \<longleftrightarrow>
      (\<exists>k<length ps. snd (ps ! k) = f \<and> regex_test (fst (ps ! k)) nm
        \<and> (\<forall>j<k. \<not> regex_test (fst (ps ! j)) nm))" (is "?L \<longleftrightarrow> ?R")
    proof
      assume ?L
      then obtain k where k: "k < length (p # ps)" "snd ((p # ps) ! k) = f"
        "regex_test (fst ((p # ps) ! k)) nm"
        and first: "\<forall>j<k. \<not> regex_test (fst ((p # ps) ! j)) nm" by blast
      from k(3) False have "k \<noteq> 0" by (cases k) (auto simp: p)
      then obtain k' where k': "k = Suc k'" by (cases k) auto
      have "\<forall>j<k'. \<not> regex_test (fst (ps ! j)) nm"
      proof (intro allI impI)
        fix j assume "j < k'"
        then have "Suc j < k" by (simp add: k')
        then have "\<not> regex_test (fst ((p # ps) ! Suc j)) nm" using first by blast
        then show "\<not> regex_test (fst (ps ! j)) nm" by simp
      qed
      with k show ?R unfolding k' by (intro exI[of _ k']) simp
    next
      assume ?R
      then obtain k where k: "k < length ps" "snd (ps ! k) = f" "regex_test (fst (ps ! k)) nm"
        and first: "\<forall>j<k. \<not> regex_test (fst (ps ! j)) nm" by blast
      have "\<forall>j<Suc k. \<not> regex_test (fst ((p # ps) ! j)) nm"
      proof (intro allI impI)
        fix j assume "j < Suc k"
        then show "\<not> regex_test (fst ((p # ps) ! j)) nm"
          using first False by (cases j) (auto simp: p)
      qed
      with k show ?L by (intro exI[of _ "Suc k"]) simp
    qed
    then show ?thesis using False Cons.IH by (simp add: p)
  qed
qed

lemma canonicalize_False: "canonicalize False c = c"
  by (simp add: canonicalize_def)

lemma rmatch_extension_no_dot:
  "CHR ''.'' \<noteq> c \<Longrightarrow> rmatch False (pattern extension) b (c # s) = []"
  by (auto simp add: extension_def canonicalize_False)

lemma rmatch_extension_end: "rmatch False (pattern extension) b [] = []"
  by (simp add: extension_def)

lemma rmatch_extension_dot:
  assumes "ext \<noteq> []" and "CHR ''.'' \<notin> set ext"
  shows "rmatch False (pattern extension) b (CHR ''.'' # ext) = [(False, [])]"
proof -
  have tw: "takeWhile (\<lambda>d. d \<notin> set [CHR ''.'']) ext = ext"
    using assms(2) by (intro takeWhile_eq_all_conv[THEN iffD2]) auto
  obtain n where n: "length ext = Suc n" using assms(1) by (cases ext) auto
  have run: "rmatch False (NotClassPlus [CHR ''.'']) False ext =
      (False, []) # map (\<lambda>k. (False, drop k ext)) (rev [1..<Suc n])"
    by (simp only: rmatch.simps tw n) (simp add: n)
  have "\<And>k. k \<in> set (rev [1..<Suc n]) \<Longrightarrow> drop k ext \<noteq> []" using n by auto
  then have rest: "concat (map (\<lambda>(b', s'). rmatch False Eol b' s')
        (map (\<lambda>k. (False, drop k ext)) (rev [1..<Suc n]))) = []"
    by (auto simp: concat_eq_Nil_conv)
  have tail: "rmatch False (Seq (NotClassPlus [CHR ''.'']) Eol) False ext = [(False, [])]"
    by (simp only: rmatch.simps(9) run list.map concat.simps rest prod.case) simp
  have "rmatch False (pattern extension) b (CHR ''.'' # ext) =
      rmatch False (Seq (NotClassPlus [CHR ''.'']) Eol) False ext"
    by (simp add: extension_def canonicalize_False del: rmatch.simps(6))
  then show ?thesis by (simp only: tail)
qed

lemma replace_no_dot:
  "CHR ''.'' \<notin> set s \<Longrightarrow> replace_from False (pattern extension) [] b s = s"
  by (induction s arbitrary: b) (simp_all add: rmatch_extension_end rmatch_extension_no_dot)

lemma takeWhile_stops:
  "\<not> P x \<Longrightarrow> length (takeWhile P (s @ x # t)) \<le> length s"
  by (induction s) simp_all

lemma rmatch_extension_inner_dot:
  "rmatch False (pattern extension) b (CHR ''.'' # s @ CHR ''.'' # ext) = []"
proof -
  let ?n = "length (takeWhile (\<lambda>d. d \<notin> set [CHR ''.'']) (s @ CHR ''.'' # ext))"
  have n: "?n \<le> length s" by (rule takeWhile_stops) simp
  have "\<And>k. k \<in> set (rev [1..<Suc ?n]) \<Longrightarrow> drop k (s @ CHR ''.'' # ext) \<noteq> []"
    using n by auto
  then have rest: "concat (map (\<lambda>(b', s'). rmatch False Eol b' s')
        (map (\<lambda>k. (False, drop k (s @ CHR ''.'' # ext))) (rev [1..<Suc ?n]))) = []"
    by (auto simp: concat_eq_Nil_conv)
  have tail: "rmatch False (Seq (NotClassPlus [CHR ''.'']) Eol) False (s @ CHR ''.'' # ext) = []"
    by (simp only: rmatch.simps(6,9) rest)
  have "rmatch False (pattern extension) b (CHR ''.'' # s @ CHR ''.'' # ext) =
      rmatch False (Seq (NotClassPlus [CHR ''.'']) Eol) False (s @ CHR ''.'' # ext)"
    by (simp add: extension_def canonicalize_False del: rmatch.simps(6))
  then show ?thesis by (simp only: tail)
qed

lemma replace_strips_extension:
  assumes "ext \<noteq> []" and "CHR ''.'' \<notin> set ext"
  shows "replace_from False (pattern extension) [] b (base @ CHR ''.'' # ext) = base"
proof (induction base arbitrary: b)
  case Nil
  show ?case by (simp add: rmatch_extension_dot[OF assms])
next
  case (Cons c base)
  have "rmatch False (pattern extension) b (c # base @ CHR ''.'' # ext) = []"
  proof (cases "c = CHR ''.''")
    case True
    then show ?thesis by (simp only: rmatch_extension_inner_dot)
  next
    case False
    then show ?thesis by (simp add: rmatch_extension_no_dot)
  qed
  then show ?case using Cons.IH by simp
qed

subsection \<open>Case and extension\<close>

lemma toLowerCase_char_dot: "toLowerCase_char c = CHR ''.'' \<longleftrightarrow> c = CHR ''.''"
proof
  assume h: "toLowerCase_char c = CHR ''.''"
  show "c = CHR ''.''"
  proof (rule ccontr)
    assume n: "c \<noteq> CHR ''.''"
    let ?n = "of_char c :: nat"
    from h n have cond: "(65 \<le> ?n \<and> ?n \<le> 90) \<or> (192 \<le> ?n \<and> ?n \<le> 222 \<and> ?n \<noteq> 215)"
      and eq: "char_of (?n + 32) = CHR ''.''"
      by (auto simp: toLowerCase_char_def Let_def split: if_splits)
    from eq have "(of_char (char_of (?n + 32)) :: nat) = of_char CHR ''.''" by simp
    then have "(?n + 32) mod 256 = 46" by simp
    with cond show False by (auto simp: mod_if split: if_splits)
  qed
next
  assume "c = CHR ''.''" then show "toLowerCase_char c = CHR ''.''"
    by (simp add: toLowerCase_char_def)
qed

lemma toLowerCase_dot_free:
  assumes "CHR ''.'' \<notin> set s"
  shows "CHR ''.'' \<notin> set (toLowerCase s)"
proof
  assume "CHR ''.'' \<in> set (toLowerCase s)"
  then obtain c where c: "c \<in> set s" "toLowerCase_char c = CHR ''.''"
    by (auto simp: toLowerCase_def)
  then have "c = CHR ''.''" by (simp add: toLowerCase_char_dot)
  with c(1) assms show False by simp
qed

lemma ignoreCase_extension: "ignoreCase extension = False"
  by (simp add: extension_def)

lemma detect_no_extension:
  assumes "CHR ''.'' \<notin> set base"
  shows "detectFaceFromFilename base = first_match patterns (toLowerCase base)"
  using toLowerCase_dot_free[OF assms]
  by (simp add: detectFaceFromFilename_def replace_def replace_no_dot ignoreCase_extension)

lemma detect_extension:
  assumes "ext \<noteq> []" and "CHR ''.'' \<notin> set ext"
  shows "detectFaceFromFilename (base @ CHR ''.'' # ext) = first_match patterns (toLowerCase base)"
proof -
  have low: "toLowerCase (base @ CHR ''.'' # ext) = toLowerCase base @ CHR ''.'' # toLowerCase ext"
    by (simp add: toLowerCase_def toLowerCase_char_dot)
  have ne: "toLowerCase ext \<noteq> []" using assms(1) by (simp add: toLowerCase_def)
  have "replace_from False (pattern extension) [] True
      (toLowerCase base @ CHR ''.'' # toLowerCase ext) = toLowerCase base"
    by (rule replace_strips_extension[OF ne toLowerCase_dot_free[OF assms(2)]])
  then show ?thesis
    by (simp add: detectFaceFromFilename_def replace_def low ignoreCase_extension)
qed

subsection \<open>Classification of concrete names\<close>

lemma documented_patterns:
  "map detectFaceFromFilename
     [''px'', ''posx'', ''+x'', ''right'',
      ''nx'', ''negx'', ''-x'', ''left'',
      ''py'', ''posy'', ''+y'', ''top'', ''up'',
      ''ny'', ''negy'', ''-y'', ''bottom'', ''down'',
      ''pz'', ''posz'', ''+z'', ''front'', ''forward'',
      ''nz'', ''negz'', ''-z'', ''back'', ''backward'']
   = [Some Right, Some Right, Some Right, Some Right,
      Some Left, Some Left, Some Left, Some Left,
      Some Top, Some Top, Some Top, Some Top, Some Top,
      Some Bottom, Some Bottom, Some Bottom, Some Bottom, Some Bottom,
      Some Front, Some Front, Some Front, Some Front, Some Front,
      Some Back, Some Back, Some Back, Some Back, Some Back]"
  by (simp add: classify_eval canonicalize_False)

lemma unrelated_name: "detectFaceFromFilename ''photo1'' = None"
  by (simp add: classify_eval canonicalize_False)

lemma px_variants:
  "detectFaceFromFilename ''PX.PNG'' = Some Right"
  "detectFaceFromFilename ''px.jpg'' = Some Right"
  "detectFaceFromFilename ''px'' = Some Right"
  by (simp_all add: classify_eval canonicalize_False)

lemma boundary_examples:
  "detectFaceFromFilename ''inbox.png'' = None"
  "detectFaceFromFilename ''my-box_px.png'' = Some Right"
  by (simp_all add: classify_eval canonicalize_False)

lemma stripped_example:
  "replace (toLowerCase ''my-box_px.png'') extension [] = ''my-box_px''"
  by (simp add: classify_eval canonicalize_False)

lemma patterns_families:
  "patterns = long_forms @ two_letter_forms @ directional_words @ sign_axis_fallback"
  by (simp add: patterns_def long_forms_def two_letter_forms_def directional_words_def
      sign_axis_fallback_def)

subsection \<open>Delimited rules\<close>

lemma rmatch_trail:
  "rmatch ic trail b post \<noteq> [] \<longleftrightarrow> post = [] \<or> hd post \<in> set sep"
  by (cases post) (simp_all add: trail_def)

lemma rmatch_lead:
  "rmatch ic lead b s =
     (if b then [(True, s)] else [])
     @ (case s of [] \<Rightarrow> [] | c # rest \<Rightarrow> if c \<in> set sep then [(False, rest)] else [])"
  by (cases s) (simp_all add: lead_def)

lemma rmatch_lead_seq:
  "rmatch ic (Seq lead r) b s \<noteq> [] \<longleftrightarrow>
     (b \<and> rmatch ic r True s \<noteq> [])
     \<or> (\<exists>c rest. s = c # rest \<and> c \<in> set sep \<and> rmatch ic r False rest \<noteq> [])"
proof -
  have "rmatch ic (Seq lead r) b s =
      (if b then rmatch ic r True s else [])
      @ (case s of [] \<Rightarrow> []
         | c # rest \<Rightarrow> if c \<in> set sep then rmatch ic r False rest else [])"
    by (simp only: rmatch.simps(9) rmatch_lead) (simp split: list.splits)
  then show ?thesis by (cases s) auto
qed

lemma test_from_lead:
  "test_from ic (Seq lead r) b s \<longleftrightarrow>
     (b \<and> rmatch ic r True s \<noteq> [])
     \<or> (\<exists>pre c rest. s = pre @ c # rest \<and> c \<in> set sep \<and> rmatch ic r False rest \<noteq> [])"
proof (induction s arbitrary: b)
  case Nil
  show ?case by (simp only: test_from.simps rmatch_lead_seq) simp
next
  case (Cons d s)
  have split: "(\<exists>pre c rest. d # s = pre @ c # rest \<and> c \<in> set sep \<and> rmatch ic r False rest \<noteq> [])
      \<longleftrightarrow> (d \<in> set sep \<and> rmatch ic r False s \<noteq> [])
         \<or> (\<exists>pre c rest. s = pre @ c # rest \<and> c \<in> set sep \<and> rmatch ic r False rest \<noteq> [])"
    (is "?L \<longleftrightarrow> ?A \<or> ?B")
  proof
    assume ?L
    then obtain pre c rest where p: "d # s = pre @ c # rest" "c \<in> set sep"
      "rmatch ic r False rest \<noteq> []" by blast
    show "?A \<or> ?B"
    proof (cases pre)
      case Nil
      then show ?thesis using p by simp
    next
      case (Cons e pre')
      then have "s = pre' @ c # rest" using p(1) by simp
      then show ?thesis using p(2,3) by blast
    qed
  next
    assume "?A \<or> ?B"
    then show ?L
    proof
      assume ?A
      then have "d # s = [] @ d # s \<and> d \<in> set sep \<and> rmatch ic r False s \<noteq> []" by simp
      then show ?L by blast
    next
      assume ?B
      then obtain pre c rest where p: "s = pre @ c # rest" "c \<in> set sep"
        "rmatch ic r False rest \<noteq> []" by blast
      then have "d # s = (d # pre) @ c # rest" by simp
      then show ?L using p(2,3) by blast
    qed
  qed
  have "test_from ic (Seq lead r) b (d # s) \<longleftrightarrow>
      rmatch ic (Seq lead r) b (d # s) \<noteq> [] \<or> test_from ic (Seq lead r) False s"
    by (simp only: test_from.simps)
  also have "\<dots> \<longleftrightarrow> (b \<and> rmatch ic r True (d # s) \<noteq> [])
      \<or> (d \<in> set sep \<and> rmatch ic r False s \<noteq> [])
      \<or> (\<exists>pre c rest. s = pre @ c # rest \<and> c \<in> set sep \<and> rmatch ic r False rest \<noteq> [])"
    by (simp only: rmatch_lead_seq Cons.IH) auto
  finally show ?case by (simp only: split)
qed

lemma rmatch_seq_trail:
  "rmatch ic (Seq w trail) b s \<noteq> [] \<longleftrightarrow>
     (\<exists>(b', post) \<in> set (rmatch ic w b s). post = [] \<or> hd post \<in> set sep)"
proof -
  have "rmatch ic (Seq w trail) b s \<noteq> [] \<longleftrightarrow>
      (\<exists>m \<in> set (rmatch ic w b s). rmatch ic trail (fst m) (snd m) \<noteq> [])"
    by (simp add: case_prod_unfold)
  also have "\<dots> \<longleftrightarrow> (\<exists>m \<in> set (rmatch ic w b s). snd m = [] \<or> hd (snd m) \<in> set sep)"
    by (simp only: rmatch_trail)
  finally show ?thesis by (simp only: case_prod_unfold)
qed

lemma delimited_match:
  "regex_test (delimited w) nm \<longleftrightarrow>
     (\<exists>(b', post) \<in> set (rmatch True w True nm). post = [] \<or> hd post \<in> set sep)
     \<or> (\<exists>pre c rest. nm = pre @ c # rest \<and> c \<in> set sep
           \<and> (\<exists>(b', post) \<in> set (rmatch True w False rest). post = [] \<or> hd post \<in> set sep))"
proof -
  have "regex_test (delimited w) nm \<longleftrightarrow> test_from True (Seq lead (Seq w trail)) True nm"
    by (simp add: regex_test_def delimited_def)
  then show ?thesis by (simp only: test_from_lead rmatch_seq_trail simp_thms)
qed

lemma families_delimited:
  "list_all (\<lambda>(re, f). re \<in> delimited ` UNIV)
     (long_forms @ two_letter_forms @ directional_words)"
  by (simp add: long_forms_def two_letter_forms_def directional_words_def)

subsection \<open>Literal words and unanchored rules\<close>

lemma prefix_canon:
  "(length w \<le> length s \<and> map f (take (length w) s) = map f w)
     \<longleftrightarrow> (\<exists>u post. s = u @ post \<and> map f u = map f w)"
proof
  assume h: "length w \<le> length s \<and> map f (take (length w) s) = map f w"
  have "s = take (length w) s @ drop (length w) s" by simp
  with h show "\<exists>u post. s = u @ post \<and> map f u = map f w" by blast
next
  assume "\<exists>u post. s = u @ post \<and> map f u = map f w"
  then obtain u post where s: "s = u @ post" and m: "map f u = map f w" by blast
  have len: "length u = length w" using m by (rule map_eq_imp_length_eq)
  then show "length w \<le> length s \<and> map f (take (length w) s) = map f w"
    using s m by simp
qed

lemma rmatch_lit:
  "rmatch ic (lit w) b s =
     (if length w \<le> length s
         \<and> map (canonicalize ic) (take (length w) s) = map (canonicalize ic) w
      then [(b \<and> w = [], drop (length w) s)] else [])"
proof (induction w arbitrary: b s rule: lit.induct)
  case 1
  show ?case by simp
next
  case (2 c)
  show ?case by (cases s) auto
next
  case (3 c v va)
  show ?case
  proof (cases s)
    case Nil
    then show ?thesis by simp
  next
    case (Cons d s')
    show ?thesis
      unfolding Cons by (simp add: "3.IH" del: lit.simps(2) )
  qed
qed

lemma rmatch_lit_iff:
  "(\<exists>(b', post) \<in> set (rmatch ic (lit w) b s). Q post)
     \<longleftrightarrow> (\<exists>u post. s = u @ post \<and> map (canonicalize ic) u = map (canonicalize ic) w \<and> Q post)"
proof
  assume "\<exists>(b', post) \<in> set (rmatch ic (lit w) b s). Q post"
  then have c: "length w \<le> length s
         \<and> map (canonicalize ic) (take (length w) s) = map (canonicalize ic) w"
    and q: "Q (drop (length w) s)"
    by (auto simp: rmatch_lit split: if_splits)
  have "s = take (length w) s @ drop (length w) s" by simp
  with c q show "\<exists>u post. s = u @ post \<and> map (canonicalize ic) u = map (canonicalize ic) w \<and> Q post"
    by blast
next
  assume "\<exists>u post. s = u @ post \<and> map (canonicalize ic) u = map (canonicalize ic) w \<and> Q post"
  then obtain u post where s: "s = u @ post"
    and m: "map (canonicalize ic) u = map (canonicalize ic) w" and q: "Q post" by blast
  have len: "length u = length w" using m by (rule map_eq_imp_length_eq)
  then show "\<exists>(b', post) \<in> set (rmatch ic (lit w) b s). Q post"
    using s m q by (simp add: rmatch_lit)
qed

lemma rmatch_lit_nonempty:
  "rmatch ic (lit w) b s \<noteq> []
     \<longleftrightarrow> (\<exists>u post. s = u @ post \<and> map (canonicalize ic) u = map (canonicalize ic) w)"
  using prefix_canon[of w s "canonicalize ic"] by (simp add: rmatch_lit)

lemma test_from_lit:
  "test_from ic (lit w) b s \<longleftrightarrow>
     (\<exists>pre u post. s = pre @ u @ post \<and> map (canonicalize ic) u = map (canonicalize ic) w)"
proof (induction s arbitrary: b)
  case Nil
  show ?case by (simp only: test_from.simps rmatch_lit_nonempty) auto
next
  case (Cons d s)
  let ?M = "\<lambda>u. map (canonicalize ic) u = map (canonicalize ic) w"
  have split: "(\<exists>pre u post. d # s = pre @ u @ post \<and> ?M u)
      \<longleftrightarrow> (\<exists>u post. d # s = u @ post \<and> ?M u) \<or> (\<exists>pre u post. s = pre @ u @ post \<and> ?M u)"
    (is "?L \<longleftrightarrow> ?A \<or> ?B")
  proof
    assume ?L
    then obtain pre u post where p: "d # s = pre @ u @ post" "?M u" by blast
    show "?A \<or> ?B"
    proof (cases pre)
      case Nil
      then show ?thesis using p by auto
    next
      case (Cons e pre')
      then have "s = pre' @ u @ post" using p(1) by simp
      then show ?thesis using p(2) by blast
    qed
  next
    assume "?A \<or> ?B"
    then show ?L
    proof
      assume ?A
      then obtain u post where "d # s = [] @ u @ post" "?M u" by auto
      then show ?L by blast
    next
      assume ?B
      then obtain pre u post where p: "s = pre @ u @ post" "?M u" by blast
      then have "d # s = (d # pre) @ u @ post" by simp
      then show ?L using p(2) by blast
    qed
  qed
  show ?case
    by (simp only: test_from.simps rmatch_lit_nonempty Cons.IH split)
qed

lemma anywhere_match:
  "regex_test (anywhere w) nm \<longleftrightarrow>
     (\<exists>pre u post. nm = pre @ u @ post
        \<and> map (canonicalize True) u = map (canonicalize True) w)"
  by (simp add: regex_test_def anywhere_def test_from_lit)

lemma delimited_lit_match:
  "regex_test (delimited (lit w)) nm \<longleftrightarrow>
     (\<exists>pre u post. nm = pre @ u @ post
        \<and> map (canonicalize True) u = map (canonicalize True) w
        \<and> (pre = [] \<or> last pre \<in> set sep) \<and> (post = [] \<or> hd post \<in> set sep))"
  (is "?L \<longleftrightarrow> ?R")
proof -
  let ?M = "\<lambda>u. map (canonicalize True) u = map (canonicalize True) w"
  let ?E = "\<lambda>post. post = [] \<or> hd post \<in> set sep"
  have L: "?L \<longleftrightarrow> (\<exists>u post. nm = u @ post \<and> ?M u \<and> ?E post)
      \<or> (\<exists>pre c rest. nm = pre @ c # rest \<and> c \<in> set sep
            \<and> (\<exists>u post. rest = u @ post \<and> ?M u \<and> ?E post))"
    by (simp only: delimited_match rmatch_lit_iff)
  show ?thesis
  proof
    assume ?L
    then consider (a) u post where "nm = u @ post" "?M u" "?E post"
      | (b) pre c u post where "nm = pre @ c # u @ post" "c \<in> set sep" "?M u" "?E post"
      using L by blast
    then show ?R
    proof cases
      case a
      then have "nm = [] @ u @ post" by simp
      then show ?thesis using a(2,3) by blast
    next
      case b
      then have "nm = (pre @ [c]) @ u @ post \<and> last (pre @ [c]) \<in> set sep" by simp
      then show ?thesis using b(3,4) by blast
    qed
  next
    assume ?R
    then obtain pre u post where r: "nm = pre @ u @ post" "?M u"
      "pre = [] \<or> last pre \<in> set sep" "?E post" by blast
    show ?L
    proof (cases "pre = []")
      case True
      then have "nm = u @ post" using r(1) by simp
      then show ?thesis using L r(2,4) by blast
    next
      case False
      then have "pre = butlast pre @ [last pre]" by simp
      then have "nm = butlast pre @ last pre # (u @ post)" using r(1)
        by (metis append.assoc append_Cons append_Nil)
      moreover have "last pre \<in> set sep" using r(3) False by simp
      ultimately show ?thesis using L r(2,4) by blast
    qed
  qed
qed

subsection \<open>Names that exercise the boundaries, the optional parts and the order\<close>

lemma whitespace_char_table:
  "toLowerCase_char (CHR 0x09) = CHR 0x09" "toLowerCase_char (CHR 0xA0) = CHR 0xA0"
  "toLowerCase_char (CHR 0x0A) = CHR 0x0A"
  "canonicalize True (CHR 0x09) = CHR 0x09" "canonicalize True (CHR 0xA0) = CHR 0xA0"
  "canonicalize True (CHR 0x0A) = CHR 0x0A"
  by (simp_all add: toLowerCase_char_def canonicalize_def char_of_nat_bits)

lemma separators:
  "set sep = {CHR ''_'', CHR ''-'', CHR 0x09, CHR 0x0A, CHR 0x0B, CHR 0x0C, CHR 0x0D, CHR '' '',
              CHR 0xA0}"
  by (simp add: sep_def whitespace_def)

lemma fallback_rules:
  "sign_axis_fallback =
     [(anywhere ''+x'', Right), (anywhere ''-x'', Left), (anywhere ''+y'', Top),
      (anywhere ''-y'', Bottom), (anywhere ''+z'', Front), (anywhere ''-z'', Back)]"
  by (simp add: sign_axis_fallback_def)

lemma undelimited_names:
  "map detectFaceFromFilename
     [''pxl.png'', ''apx.png'', ''desktop.png'', ''upload.png'', ''topright.png'',
      ''sky.px.png'', ''posxy.png'', ''pos__x.png'', ''positiv_x.png'']
   = [None, None, None, None, None, None, None, None, None]"
  by (simp add: classify_eval canonicalize_False)

lemma separated_names:
  "map detectFaceFromFilename
     [''sky_px.png'', ''sky-px.png'', ''sky px.png'', ''sky'' @ [CHR 0x09] @ ''px.png'',
      ''sky'' @ [CHR 0xA0] @ ''px.png'', ''px'' @ [CHR 0x0A] @ ''sky.png'']
   = [Some Right, Some Right, Some Right, Some Right, Some Right, Some Right]"
  by (simp add: classify_eval canonicalize_False whitespace_char_table)

lemma long_form_names:
  "map detectFaceFromFilename
     [''posx.png'', ''pos_x.png'', ''pos-x.png'', ''positivex.png'', ''positive_x.png'',
      ''positive x.png'', ''negative-z.png'', ''neg y.png'']
   = [Some Right, Some Right, Some Right, Some Right, Some Right, Some Right, Some Back,
      Some Bottom]"
  by (simp add: classify_eval canonicalize_False)

lemma unanchored_names:
  "map detectFaceFromFilename [''sky+x.png'', ''a-x.png'', ''sky-xmas.png'', ''a+zb.png'']
   = [Some Right, Some Left, Some Left, Some Front]"
  by (simp add: classify_eval canonicalize_False)

lemmas rule_eval = regex_test_def canonicalize_table
  delimited_def anywhere_def pos_axis_def neg_axis_def lead_def trail_def sep_def whitespace_def

lemma two_rules_match:
  "regex_test (delimited (pos_axis CHR ''x'')) ''positive-x''"
  "regex_test (anywhere ''-x'') ''positive-x''"
  "regex_test (delimited (neg_axis CHR ''x'')) ''px_negx''"
  "regex_test (delimited (lit ''px'')) ''px_negx''"
  "regex_test (delimited (lit ''px'')) ''top_px''"
  "regex_test (delimited (Alt (lit ''top'') (lit ''up''))) ''top_px''"
  "regex_test (delimited (lit ''right'')) ''right-x''"
  "regex_test (anywhere ''-x'') ''right-x''"
  "regex_test (delimited (lit ''px'')) ''nx_px''"
  "regex_test (delimited (lit ''nx'')) ''nx_px''"
  "regex_test (anywhere ''-x'') ''+y-x''"
  "regex_test (anywhere ''+y'') ''+y-x''"
  by (simp_all add: rule_eval)

lemma two_rules_first:
  "map detectFaceFromFilename
     [''positive-x.png'', ''px_negx.png'', ''top_px.png'', ''right-x.png'', ''nx_px.png'',
      ''+y-x.png'']
   = [Some Right, Some Left, Some Right, Some Right, Some Right, Some Left]"
  by (simp add: classify_eval canonicalize_False)

text \<open>
  Claim C3. The rules are tried in a fixed order, the long forms with an axis, then the
  two-letter forms, then the directional words, then the unanchored sign and axis, and
  the classifier returns the face of the first rule that matches the name without its
  extension, in lower case: a face \<open>f\<close> is returned exactly when some rule for \<open>f\<close>
  matches and no earlier rule does, and nothing is returned exactly when no rule
  matches. Every rule of the first three families is a delimited one, and a delimited
  rule matches a name exactly when its body matches a part of the name that starts at
  the start of the name or just after a separator (underscore, hyphen, white space) and
  ends at the end of the name or just before a separator; for a rule whose body is a
  word, the word must occur in the name, in either case of its letters, between two such
  boundaries. The rules of the fourth family are unanchored: such a rule matches exactly
  when its sign and axis occur anywhere in the name. \<open>inbox.png\<close> is not classified,
  and \<open>my-box_px.png\<close> is classified as Right.

  The boundaries decide: names in which the body of a rule occurs, but not between
  boundaries, are not classified (\<open>pxl\<close>, \<open>apx\<close>, \<open>desktop\<close>, \<open>upload\<close>, \<open>topright\<close>,
  \<open>posxy\<close>, and \<open>sky.px\<close>, a dot being no separator), and each separator character is
  honoured. The optional parts of the long forms decide: \<open>itive\<close>, \<open>ative\<close> and one
  separator before the axis may each be present or absent, and no more than one
  separator. The unanchored rules need no boundary (\<open>sky-xmas.png\<close> is Left). The
  order decides: for names that two rules for different faces match, the face is that of
  the rule that comes first in the list, wherever the two occur in the name.
\<close>

theorem classify_first_matching_rule:
  "patterns = long_forms @ two_letter_forms @ directional_words @ sign_axis_fallback
   \<and> (detectFaceFromFilename filename = Some f \<longleftrightarrow>
        (\<exists>k<length patterns. snd (patterns ! k) = f
           \<and> regex_test (fst (patterns ! k)) (replace (toLowerCase filename) extension [])
           \<and> (\<forall>j<k. \<not> regex_test (fst (patterns ! j))
                        (replace (toLowerCase filename) extension []))))
   \<and> (detectFaceFromFilename filename = None \<longleftrightarrow>
        (\<forall>k<length patterns. \<not> regex_test (fst (patterns ! k))
                        (replace (toLowerCase filename) extension [])))
   \<and> list_all (\<lambda>(re, f). re \<in> delimited ` UNIV)
        (long_forms @ two_letter_forms @ directional_words)
   \<and> (regex_test (delimited w) nm \<longleftrightarrow>
        (\<exists>(b', post) \<in> set (rmatch True w True nm). post = [] \<or> hd post \<in> set sep)
        \<or> (\<exists>pre c rest. nm = pre @ c # rest \<and> c \<in> set sep
              \<and> (\<exists>(b', post) \<in> set (rmatch True w False rest).
                    post = [] \<or> hd post \<in> set sep)))
   \<and> detectFaceFromFilename ''inbox.png'' = None
   \<and> detectFaceFromFilename ''my-box_px.png'' = Some Right
   \<and> set sep = {CHR ''_'', CHR ''-'', CHR 0x09, CHR 0x0A, CHR 0x0B, CHR 0x0C, CHR 0x0D,
                 CHR '' '', CHR 0xA0}
   \<and> (regex_test (delimited (lit word)) nm \<longleftrightarrow>
        (\<exists>pre u post. nm = pre @ u @ post
           \<and> map (canonicalize True) u = map (canonicalize True) word
           \<and> (pre = [] \<or> last pre \<in> set sep) \<and> (post = [] \<or> hd post \<in> set sep)))
   \<and> sign_axis_fallback =
        [(anywhere ''+x'', Right), (anywhere ''-x'', Left), (anywhere ''+y'', Top),
         (anywhere ''-y'', Bottom), (anywhere ''+z'', Front), (anywhere ''-z'', Back)]
   \<and> (regex_test (anywhere word) nm \<longleftrightarrow>
        (\<exists>pre u post. nm = pre @ u @ post
           \<and> map (canonicalize True) u = map (canonicalize True) word))
   \<and> map detectFaceFromFilename
        [''pxl.png'', ''apx.png'', ''desktop.png'', ''upload.png'', ''topright.png'',
         ''sky.px.png'', ''posxy.png'', ''pos__x.png'', ''positiv_x.png'']
      = [None, None, None, None, None, None, None, None, None]
   \<and> map detectFaceFromFilename
        [''sky_px.png'', ''sky-px.png'', ''sky px.png'', ''sky'' @ [CHR 0x09] @ ''px.png'',
         ''sky'' @ [CHR 0xA0] @ ''px.png'', ''px'' @ [CHR 0x0A] @ ''sky.png'']
      = [Some Right, Some Right, Some Right, Some Right, Some Right, Some Right]
   \<and> map detectFaceFromFilename
        [''posx.png'', ''pos_x.png'', ''pos-x.png'', ''positivex.png'', ''positive_x.png'',
         ''positive x.png'', ''negative-z.png'', ''neg y.png'']
      = [Some Right, Some Right, Some Right, Some Right, Some Right, Some Right, Some Back,
         Some Bottom]
   \<and> map detectFaceFromFilename [''sky+x.png'', ''a-x.png'', ''sky-xmas.png'', ''a+zb.png'']
      = [Some Right, Some Left, Some Left, Some Front]
   \<and> regex_test (delimited (pos_axis CHR ''x'')) ''positive-x''
   \<and> regex_test (anywhere ''-x'') ''positive-x''
   \<and> regex_test (delimited (neg_axis CHR ''x'')) ''px_negx''
   \<and> regex_test (delimited (lit ''px'')) ''px_negx''
   \<and> regex_test (delimited (lit ''px'')) ''top_px''
   \<and> regex_test (delimited (Alt (lit ''top'') (lit ''up''))) ''top_px''
   \<and> regex_test (delimited (lit ''right'')) ''right-x''
   \<and> regex_test (anywhere ''-x'') ''right-x''
   \<and> regex_test (delimited (lit ''px'')) ''nx_px''
   \<and> regex_test (delimited (lit ''nx'')) ''nx_px''
   \<and> regex_test (anywhere ''-x'') ''+y-x''
   \<and> regex_test (anywhere ''+y'') ''+y-x''
   \<and> map detectFaceFromFilename
        [''positive-x.png'', ''px_negx.png'', ''top_px.png'', ''right-x.png'', ''nx_px.png'',
         ''+y-x.png'']
      = [Some Right, Some Left, Some Right, Some Right, Some Right, Some Left]"
proof -
  have some: "detectFaceFromFilename filename = Some f \<longleftrightarrow>
        (\<exists>k<length patterns. snd (patterns ! k) = f
           \<and> regex_test (fst (patterns ! k)) (replace (toLowerCase filename) extension [])
           \<and> (\<forall>j<k. \<not> regex_test (fst (patterns ! j))
                        (replace (toLowerCase filename) extension [])))"
    by (simp only: detectFaceFromFilename_def Let_def first_match_Some_iff)
  have none: "detectFaceFromFilename filename = None \<longleftrightarrow>
        (\<forall>k<length patterns. \<not> regex_test (fst (patterns ! k))
                        (replace (toLowerCase filename) extension []))"
    by (simp only: detectFaceFromFilename_def Let_def first_match_None_iff)
  show ?thesis
    by (intro conjI patterns_families some none families_delimited delimited_match
        boundary_examples separators delimited_lit_match fallback_rules anywhere_match
        undelimited_names separated_names long_form_names unanchored_names two_rules_match
        two_rules_first)
qed

theorem classify_first_matching_rule_witness:
  "(\<exists>k<length patterns. snd (patterns ! k) = Right
      \<and> regex_test (fst (patterns ! k)) ''my-box_px''
      \<and> (\<forall>j<k. \<not> regex_test (fst (patterns ! j)) ''my-box_px''))
   \<and> detectFaceFromFilename ''my-box_px.png'' = Some Right"
  using classify_first_matching_rule[of "''my-box_px.png''" Right]
  by (simp only: stripped_example) blast

text \<open>
  Claim C9. Each documented pattern string is classified as its face, and \<open>photo1\<close> is
  not classified. Two names that differ only in the case of their letters are
  classified alike. The extension does not matter: a name is classified alike with any
  two extensions, and a name without a dot is classified as it is with an extension
  appended. \<open>PX.PNG\<close>, \<open>px.jpg\<close> and \<open>px\<close> are all classified as Right.
\<close>

theorem classify_documented_patterns:
  "map detectFaceFromFilename
     [''px'', ''posx'', ''+x'', ''right'',
      ''nx'', ''negx'', ''-x'', ''left'',
      ''py'', ''posy'', ''+y'', ''top'', ''up'',
      ''ny'', ''negy'', ''-y'', ''bottom'', ''down'',
      ''pz'', ''posz'', ''+z'', ''front'', ''forward'',
      ''nz'', ''negz'', ''-z'', ''back'', ''backward'']
   = [Some Right, Some Right, Some Right, Some Right,
      Some Left, Some Left, Some Left, Some Left,
      Some Top, Some Top, Some Top, Some Top, Some Top,
      Some Bottom, Some Bottom, Some Bottom, Some Bottom, Some Bottom,
      Some Front, Some Front, Some Front, Some Front, Some Front,
      Some Back, Some Back, Some Back, Some Back, Some Back]
   \<and> detectFaceFromFilename ''photo1'' = None
   \<and> (toLowerCase a = toLowerCase b \<longrightarrow> detectFaceFromFilename a = detectFaceFromFilename b)
   \<and> (ext \<noteq> [] \<and> CHR ''.'' \<notin> set ext \<and> ext' \<noteq> [] \<and> CHR ''.'' \<notin> set ext' \<longrightarrow>
        detectFaceFromFilename (base @ CHR ''.'' # ext)
          = detectFaceFromFilename (base @ CHR ''.'' # ext'))
   \<and> (ext \<noteq> [] \<and> CHR ''.'' \<notin> set ext \<and> CHR ''.'' \<notin> set base \<longrightarrow>
        detectFaceFromFilename (base @ CHR ''.'' # ext) = detectFaceFromFilename base)
   \<and> detectFaceFromFilename ''PX.PNG'' = Some Right
   \<and> detectFaceFromFilename ''px.jpg'' = Some Right
   \<and> detectFaceFromFilename ''px'' = Some Right"
proof (intro conjI impI)
  show "detectFaceFromFilename a = detectFaceFromFilename b" if "toLowerCase a = toLowerCase b"
    using that by (simp add: detectFaceFromFilename_def)
  show "detectFaceFromFilename (base @ CHR ''.'' # ext)
          = detectFaceFromFilename (base @ CHR ''.'' # ext')"
    if "ext \<noteq> [] \<and> CHR ''.'' \<notin> set ext \<and> ext' \<noteq> [] \<and> CHR ''.'' \<notin> set ext'"
    using that by (simp add: detect_extension)
  show "detectFaceFromFilename (base @ CHR ''.'' # ext) = detectFaceFromFilename base"
    if "ext \<noteq> [] \<and> CHR ''.'' \<notin> set ext \<and> CHR ''.'' \<notin> set base"
    using that by (simp add: detect_extension detect_no_extension)
qed (rule documented_patterns unrelated_name px_variants)+

theorem classify_documented_patterns_witness:
  "toLowerCase ''PX.PNG'' = toLowerCase ''px.png''
   \<and> detectFaceFromFilename ''PX.PNG'' = detectFaceFromFilename ''px.png''
   \<and> ''jpg'' \<noteq> [] \<and> CHR ''.'' \<notin> set ''jpg'' \<and> ''png'' \<noteq> [] \<and> CHR ''.'' \<notin> set ''png''
   \<and> CHR ''.'' \<notin> set ''px''
   \<and> detectFaceFromFilename (''px'' @ CHR ''.'' # ''jpg'')
       = detectFaceFromFilename (''px'' @ CHR ''.'' # ''png'')
   \<and> detectFaceFromFilename (''px'' @ CHR ''.'' # ''jpg'') = detectFaceFromFilename ''px''"
proof -
  have low: "toLowerCase ''PX.PNG'' = toLowerCase ''px.png''"
    by (simp add: toLowerCase_def toLowerCase_char_table)
  have prem: "''jpg'' \<noteq> [] \<and> CHR ''.'' \<notin> set ''jpg'' \<and> ''png'' \<noteq> [] \<and> CHR ''.'' \<notin> set ''png''
      \<and> CHR ''.'' \<notin> set ''px''"
    by simp
  show ?thesis
    using classify_documented_patterns[of "''PX.PNG''" "''px.png''" "''jpg''" "''png''" "''px''"]
      low prem
    by blast
qed

section \<open>Properties of the array operations\<close>

lemma length_map_from: "length (map_from f i as) = length as"
  by (induction as arbitrary: i) simp_all

lemma nth_map_from: "k < length as \<Longrightarrow> map_from f i as ! k = f (as ! k) (i + k)"
proof (induction as arbitrary: i k)
  case Nil
  then show ?case by simp
next
  case (Cons a as)
  then show ?case by (cases k) simp_all
qed

lemma length_map_index: "length (map_index f as) = length as"
  by (simp add: map_index_def length_map_from)

lemma nth_map_index: "k < length as \<Longrightarrow> map_index f as ! k = f (as ! k) k"
  by (simp add: map_index_def nth_map_from)

lemma map_index_update:
  "map_index (\<lambda>a i. if i = e then g a else a) as
     = (if e < length as then as[e := g (as ! e)] else as)"
  by (auto simp: list_eq_iff_nth_eq length_map_index nth_map_index nth_list_update)

lemma findIndex_from_None:
  "findIndex_from p i as = None \<longleftrightarrow> (\<forall>k<length as. \<not> p (as ! k) (i + k))"
proof (induction as arbitrary: i)
  case Nil
  show ?case by simp
next
  case (Cons a as)
  have "(\<forall>k<length (a # as). \<not> p ((a # as) ! k) (i + k))
      \<longleftrightarrow> \<not> p a i \<and> (\<forall>k<length as. \<not> p (as ! k) (Suc i + k))"
    by (auto simp: All_less_Suc2)
  then show ?case using Cons.IH[of "Suc i"] by simp
qed

lemma findIndex_from_Some:
  "findIndex_from p i as = Some e \<longleftrightarrow>
     (\<exists>k<length as. e = i + k \<and> p (as ! k) (i + k) \<and> (\<forall>j<k. \<not> p (as ! j) (i + j)))"
proof (induction as arbitrary: i)
  case Nil
  show ?case by simp
next
  case (Cons a as)
  show ?case
  proof (cases "p a i")
    case True
    have "(\<exists>k<length (a # as). e = i + k \<and> p ((a # as) ! k) (i + k)
        \<and> (\<forall>j<k. \<not> p ((a # as) ! j) (i + j))) \<longleftrightarrow> e = i" (is "?L \<longleftrightarrow> _")
    proof
      assume ?L
      then obtain k where k: "e = i + k" and first: "\<forall>j<k. \<not> p ((a # as) ! j) (i + j)"
        by blast
      have "k = 0"
      proof (rule ccontr)
        assume "k \<noteq> 0"
        then have "\<not> p ((a # as) ! 0) (i + 0)" using first by blast
        then show False using True by simp
      qed
      then show "e = i" using k by simp
    next
      assume "e = i"
      then show ?L using True by (intro exI[of _ 0]) simp
    qed
    then show ?thesis using True by auto
  next
    case False
    have "(\<exists>k<length (a # as). e = i + k \<and> p ((a # as) ! k) (i + k)
        \<and> (\<forall>j<k. \<not> p ((a # as) ! j) (i + j))) \<longleftrightarrow>
      (\<exists>k<length as. e = Suc i + k \<and> p (as ! k) (Suc i + k)
        \<and> (\<forall>j<k. \<not> p (as ! j) (Suc i + j)))" (is "?L \<longleftrightarrow> ?R")
    proof
      assume ?L
      then obtain k where k: "k < length (a # as)" "e = i + k" "p ((a # as) ! k) (i + k)"
        and first: "\<forall>j<k. \<not> p ((a # as) ! j) (i + j)" by blast
      from k(3) False have "k \<noteq> 0" by (cases k) auto
      then obtain k' where k': "k = Suc k'" by (cases k) auto
      have "\<forall>j<k'. \<not> p (as ! j) (Suc i + j)"
      proof (intro allI impI)
        fix j assume "j < k'"
        then have "Suc j < k" by (simp add: k')
        then have "\<not> p ((a # as) ! Suc j) (i + Suc j)" using first by blast
        then show "\<not> p (as ! j) (Suc i + j)" by simp
      qed
      with k show ?R unfolding k' by (intro exI[of _ k']) simp
    next
      assume ?R
      then obtain k where k: "k < length as" "e = Suc i + k" "p (as ! k) (Suc i + k)"
        and first: "\<forall>j<k. \<not> p (as ! j) (Suc i + j)" by blast
      have "\<forall>j<Suc k. \<not> p ((a # as) ! j) (i + j)"
      proof (intro allI impI)
        fix j assume "j < Suc k"
        then show "\<not> p ((a # as) ! j) (i + j)"
          using first False by (cases j) auto
      qed
      with k show ?L by (intro exI[of _ "Suc k"]) simp
    qed
    then show ?thesis using False Cons.IH[of "Suc i"] by simp
  qed
qed

lemma findIndex_None:
  "findIndex p as = None \<longleftrightarrow> (\<forall>k<length as. \<not> p (as ! k) k)"
  by (simp add: findIndex_def findIndex_from_None)

lemma findIndex_Some:
  "findIndex p as = Some e \<longleftrightarrow>
     (e < length as \<and> p (as ! e) e \<and> (\<forall>j<e. \<not> p (as ! j) j))"
  by (auto simp: findIndex_def findIndex_from_Some)

section \<open>Properties of the completion of callbacks\<close>

lemma run_pending_none: "run_pending sched [] s = (s, [])"
  by (induction sched) simp_all

lemma run_pending_one:
  "snd (run_pending sched [c] s) = [] \<Longrightarrow> fst (run_pending sched [c] s) = c s"
proof (induction sched)
  case Nil
  then show ?case by simp
next
  case (Cons k ks)
  then show ?case by (cases "k = 0") (simp_all add: run_pending_none)
qed

lemma run_pending_two:
  assumes "snd (run_pending sched [c0, c1] s) = []"
  shows "fst (run_pending sched [c0, c1] s) = c1 (c0 s)
       \<or> fst (run_pending sched [c0, c1] s) = c0 (c1 s)"
  using assms
proof (induction sched)
  case Nil
  then show ?case by simp
next
  case (Cons k ks)
  consider "k = 0" | "k = 1" | "2 \<le> k" by linarith
  then show ?case
  proof cases
    case 1
    then show ?thesis using Cons.prems run_pending_one[of ks c1 "c0 s"] by simp
  next
    case 2
    then show ?thesis using Cons.prems run_pending_one[of ks c0 "c1 s"] by simp
  next
    case 3
    then show ?thesis using Cons by simp
  qed
qed

lemma run_pending_invariant:
  assumes step: "\<And>c s. c \<in> set cbs \<Longrightarrow> P s \<Longrightarrow> P (c s)"
    and "P s"
  shows "P (fst (run_pending sched cbs s))"
  using assms
proof (induction sched arbitrary: cbs s)
  case Nil
  then show ?case by simp
next
  case (Cons k ks)
  show ?case
  proof (cases "k < length cbs")
    case True
    have sub: "set (take k cbs @ drop (Suc k) cbs) \<subseteq> set cbs"
      using set_take_subset set_drop_subset by fastforce
    have "P ((cbs ! k) s)" using Cons.prems True by simp
    then have "P (fst (run_pending ks (take k cbs @ drop (Suc k) cbs) ((cbs ! k) s)))"
      using Cons.IH[of "take k cbs @ drop (Suc k) cbs" "(cbs ! k) s"] Cons.prems(1) sub
      by blast
    then show ?thesis using True by simp
  next
    case False
    then show ?thesis using Cons by simp
  qed
qed

section \<open>Properties of the bulk assignment\<close>

lemma keeps_filled_iff:
  "keeps_filled old new \<longleftrightarrow>
     (length new = length old \<and> (\<forall>j<length old. truthy (image (old ! j)) \<longrightarrow> new ! j = old ! j))"
  by (auto simp: keeps_filled_def list_all_iff)

lemma keeps_filled_refl: "keeps_filled s s"
  by (simp add: keeps_filled_iff)

lemma keeps_filled_trans:
  assumes "keeps_filled a b" and "keeps_filled b c"
  shows "keeps_filled a c"
  using assms unfolding keeps_filled_iff by (metis)

lemma sequential_onload_cases:
  "(\<exists>e. fileIndex \<le> e \<and> e < length prev \<and> \<not> truthy (image (prev ! e))
        \<and> (\<forall>j. fileIndex \<le> j \<and> j < e \<longrightarrow> truthy (image (prev ! j)))
        \<and> sequential_onload file fileIndex prev
            = prev[e := (prev ! e)\<lparr>image := Some (dataURL file)\<rparr>])
   \<or> ((\<forall>j. fileIndex \<le> j \<and> j < length prev \<longrightarrow> truthy (image (prev ! j)))
        \<and> sequential_onload file fileIndex prev = prev)"
proof (cases "findIndex (\<lambda>s i. \<not> truthy (image s) \<and> i \<ge> fileIndex) prev")
  case None
  then have full: "\<forall>j. fileIndex \<le> j \<and> j < length prev \<longrightarrow> truthy (image (prev ! j))"
    by (auto simp: findIndex_None)
  have "sequential_onload file fileIndex prev = prev"
    using full
    by (auto simp add: sequential_onload_def None list_eq_iff_nth_eq length_map_index
        nth_map_index)
  with full show ?thesis by blast
next
  case (Some e)
  then have e: "e < length prev" "\<not> truthy (image (prev ! e))" "fileIndex \<le> e"
    and first: "\<forall>j<e. \<not> (\<not> truthy (image (prev ! j)) \<and> fileIndex \<le> j)"
    by (auto simp: findIndex_Some)
  have "sequential_onload file fileIndex prev
      = prev[e := (prev ! e)\<lparr>image := Some (dataURL file)\<rparr>]"
    using e
    by (simp add: sequential_onload_def Some list_eq_iff_nth_eq length_map_index nth_map_index
        nth_list_update)
  with e first show ?thesis by blast
qed

lemma sequential_onload_keeps: "keeps_filled prev (sequential_onload file fileIndex prev)"
  using sequential_onload_cases[of fileIndex prev "file"]
  by (auto simp: keeps_filled_iff nth_list_update)

lemma detected_onload_face:
  "detected_onload file (Some f) prev =
     map (\<lambda>slot. if face slot = f then slot\<lparr>image := Some (dataURL file)\<rparr> else slot) prev"
  by (simp add: detected_onload_def)

lemma detected_onload_unknown_cases:
  "(\<exists>e<length prev. \<not> truthy (image (prev ! e)) \<and> (\<forall>j<e. truthy (image (prev ! j)))
        \<and> detected_onload file None prev = prev[e := (prev ! e)\<lparr>image := Some (dataURL file)\<rparr>])
   \<or> ((\<forall>j<length prev. truthy (image (prev ! j))) \<and> detected_onload file None prev = prev)"
proof (cases "findIndex (\<lambda>s i. \<not> truthy (image s)) prev")
  case None
  then have full: "\<forall>j<length prev. truthy (image (prev ! j))"
    by (simp add: findIndex_None)
  have "detected_onload file None prev = prev"
    by (simp add: detected_onload_def None)
  with full show ?thesis by blast
next
  case (Some e)
  then have e: "e < length prev" "\<not> truthy (image (prev ! e))"
    and first: "\<forall>j<e. truthy (image (prev ! j))"
    by (auto simp: findIndex_Some)
  have "detected_onload file None prev = prev[e := (prev ! e)\<lparr>image := Some (dataURL file)\<rparr>]"
    using e by (simp add: detected_onload_def Some map_index_update)
  with e first show ?thesis by blast
qed

lemma hasDetectedFaces_eq:
  "list_ex (\<lambda>m. snd m \<noteq> None) (map (\<lambda>file. (file, detectFaceFromFilename (name file))) fs)
     = list_ex (\<lambda>file. detectFaceFromFilename (name file) \<noteq> None) fs"
  by (simp add: list_ex_iff)

lemma handleBulkUpload_unfold:
  "handleBulkUpload (Some fs) =
     (if list_ex (\<lambda>file. detectFaceFromFilename (name file) \<noteq> None) (take 6 fs)
      then map (\<lambda>file. detected_onload file (detectFaceFromFilename (name file))) (take 6 fs)
      else map_index (\<lambda>file fileIndex. sequential_onload file fileIndex) (take 6 fs))"
proof -
  have m: "map (\<lambda>(file, detected). detected_onload file detected)
        (map (\<lambda>file. (file, detectFaceFromFilename (name file))) (take 6 fs))
      = map (\<lambda>file. detected_onload file (detectFaceFromFilename (name file))) (take 6 fs)"
    by (simp add: comp_def)
  show ?thesis
    by (simp only: handleBulkUpload_def Let_def option.case hasDetectedFaces_eq m)
qed

lemma length_handleBulkUpload: "length (handleBulkUpload (Some fs)) = min 6 (length fs)"
  by (simp add: handleBulkUpload_unfold length_map_index min.commute)

lemma nth_handleBulkUpload_sequential:
  assumes "list_all (\<lambda>file. detectFaceFromFilename (name file) = None) fs"
    and "i < min 6 (length fs)"
  shows "handleBulkUpload (Some fs) ! i = sequential_onload (fs ! i) i"
proof -
  have "\<not> list_ex (\<lambda>file. detectFaceFromFilename (name file) \<noteq> None) (take 6 fs)"
    using assms(1) by (auto simp: list_all_iff list_ex_iff dest: in_set_takeD)
  then show ?thesis
    using assms(2) by (simp add: handleBulkUpload_unfold nth_map_index)
qed

lemma nth_handleBulkUpload_detected:
  assumes "list_ex (\<lambda>file. detectFaceFromFilename (name file) \<noteq> None) (take 6 fs)"
    and "k < min 6 (length fs)"
  shows "handleBulkUpload (Some fs) ! k
     = detected_onload (fs ! k) (detectFaceFromFilename (name (fs ! k)))"
  using assms by (simp add: handleBulkUpload_unfold)

lemma sequential_callbacks_keep:
  assumes "list_all (\<lambda>file. detectFaceFromFilename (name file) = None) fs"
    and "c \<in> set (handleBulkUpload (Some fs))"
  shows "keeps_filled s (c s)"
proof -
  from assms(2) obtain i where i: "i < length (handleBulkUpload (Some fs))"
    and c: "c = handleBulkUpload (Some fs) ! i"
    by (auto simp: in_set_conv_nth)
  from i have "i < min 6 (length fs)" by (simp add: length_handleBulkUpload)
  then have "c = sequential_onload (fs ! i) i"
    using c nth_handleBulkUpload_sequential[OF assms(1)] by simp
  then show ?thesis by (simp add: sequential_onload_keeps)
qed

lemma sequential_run_keeps:
  assumes "list_all (\<lambda>file. detectFaceFromFilename (name file) = None) fs"
  shows "keeps_filled prev (fst (run_pending sched (handleBulkUpload (Some fs)) prev))"
proof (rule run_pending_invariant[where P = "keeps_filled prev"])
  show "keeps_filled prev prev" by (rule keeps_filled_refl)
next
  fix c s
  assume "c \<in> set (handleBulkUpload (Some fs))" and "keeps_filled prev s"
  then show "keeps_filled prev (c s)"
    using sequential_callbacks_keep[OF assms] keeps_filled_trans by blast
qed

lemma abc_files_unknown:
  "list_all (\<lambda>file. detectFaceFromFilename (name file) = None) abc_files"
  by (simp add: abc_files_def classify_eval canonicalize_False)

lemma abc_files_callbacks:
  "handleBulkUpload (Some abc_files) =
     [sequential_onload \<lparr>name = ''a.png'', dataURL = ''data:a''\<rparr> 0,
      sequential_onload \<lparr>name = ''b.png'', dataURL = ''data:b''\<rparr> 1,
      sequential_onload \<lparr>name = ''c.png'', dataURL = ''data:c''\<rparr> 2]"
proof -
  have "\<not> list_ex (\<lambda>file. detectFaceFromFilename (name file) \<noteq> None) (take 6 abc_files)"
    using abc_files_unknown by (auto simp: list_all_iff list_ex_iff dest: in_set_takeD)
  then show ?thesis
    by (simp add: handleBulkUpload_unfold) (simp add: abc_files_def map_index_def numeral_2_eq_2)
qed

lemmas slots_eval = sequential_onload_def detected_onload_def findIndex_def map_index_def
  truthy_def Let_def

text \<open>
  Claim C4. When no file of a bulk assignment is classified, one update is registered for
  each of the first six files. The update of the file at position \<open>i\<close> puts its image
  into the first slot at an index from \<open>i\<close> on that is empty when the update runs, and
  changes nothing when there is none (the slot at \<open>i\<close>, if there is one, then holds an
  image). In whatever order the reads complete, and whichever of them complete, the
  number of slots is unchanged and every slot that held an image before is as it was.
\<close>

theorem sequential_bulk_upload:
  assumes "list_all (\<lambda>file. detectFaceFromFilename (name file) = None) fs"
  shows "length (handleBulkUpload (Some fs)) = min 6 (length fs)
   \<and> (\<forall>i<min 6 (length fs). \<forall>prev.
        (\<exists>e. i \<le> e \<and> e < length prev \<and> \<not> truthy (image (prev ! e))
           \<and> (\<forall>j. i \<le> j \<and> j < e \<longrightarrow> truthy (image (prev ! j)))
           \<and> (handleBulkUpload (Some fs) ! i) prev
               = prev[e := (prev ! e)\<lparr>image := Some (dataURL (fs ! i))\<rparr>])
        \<or> ((\<forall>j. i \<le> j \<and> j < length prev \<longrightarrow> truthy (image (prev ! j)))
           \<and> (handleBulkUpload (Some fs) ! i) prev = prev))
   \<and> (\<forall>sched prev.
        length (fst (run_pending sched (handleBulkUpload (Some fs)) prev)) = length prev
        \<and> (\<forall>j<length prev. truthy (image (prev ! j)) \<longrightarrow>
              fst (run_pending sched (handleBulkUpload (Some fs)) prev) ! j = prev ! j))"
proof (intro conjI allI impI)
  show "length (handleBulkUpload (Some fs)) = min 6 (length fs)"
    by (rule length_handleBulkUpload)
next
  fix i and prev :: "FaceSlot list"
  assume "i < min 6 (length fs)"
  then have "handleBulkUpload (Some fs) ! i = sequential_onload (fs ! i) i"
    by (rule nth_handleBulkUpload_sequential[OF assms])
  then show "(\<exists>e. i \<le> e \<and> e < length prev \<and> \<not> truthy (image (prev ! e))
           \<and> (\<forall>j. i \<le> j \<and> j < e \<longrightarrow> truthy (image (prev ! j)))
           \<and> (handleBulkUpload (Some fs) ! i) prev
               = prev[e := (prev ! e)\<lparr>image := Some (dataURL (fs ! i))\<rparr>])
        \<or> ((\<forall>j. i \<le> j \<and> j < length prev \<longrightarrow> truthy (image (prev ! j)))
           \<and> (handleBulkUpload (Some fs) ! i) prev = prev)"
    using sequential_onload_cases[of i prev "fs ! i"] by simp
next
  fix sched and prev :: "FaceSlot list"
  show "length (fst (run_pending sched (handleBulkUpload (Some fs)) prev)) = length prev"
    using sequential_run_keeps[OF assms, of prev sched] by (simp add: keeps_filled_iff)
next
  fix sched and prev :: "FaceSlot list" and j
  assume "j < length prev" and "truthy (image (prev ! j))"
  then show "fst (run_pending sched (handleBulkUpload (Some fs)) prev) ! j = prev ! j"
    using sequential_run_keeps[OF assms, of prev sched] by (simp add: keeps_filled_iff)
qed

theorem sequential_bulk_upload_witness:
  "list_all (\<lambda>file. detectFaceFromFilename (name file) = None) abc_files
   \<and> length (handleBulkUpload (Some abc_files)) = 3
   \<and> fst (run_pending [2, 0, 0] (handleBulkUpload (Some abc_files)) example_slots) =
       [\<lparr>face = Top, image = Some ''data:sky''\<rparr>,
        \<lparr>face = Left, image = Some ''data:a''\<rparr>,
        \<lparr>face = Front, image = Some ''data:hill''\<rparr>,
        \<lparr>face = Right, image = Some ''data:c''\<rparr>,
        \<lparr>face = Back, image = Some ''data:b''\<rparr>,
        \<lparr>face = Bottom, image = None\<rparr>]
   \<and> fst (run_pending [2, 0, 0] (handleBulkUpload (Some abc_files)) INITIAL_SLOTS) =
       [\<lparr>face = Top, image = Some ''data:a''\<rparr>,
        \<lparr>face = Left, image = Some ''data:b''\<rparr>,
        \<lparr>face = Front, image = Some ''data:c''\<rparr>,
        \<lparr>face = Right, image = None\<rparr>,
        \<lparr>face = Back, image = None\<rparr>,
        \<lparr>face = Bottom, image = None\<rparr>]"
proof -
  have len: "length (handleBulkUpload (Some abc_files)) = 3"
    using sequential_bulk_upload[OF abc_files_unknown] by (simp add: abc_files_def)
  have r1: "fst (run_pending [2, 0, 0] (handleBulkUpload (Some abc_files)) example_slots) =
       [\<lparr>face = Top, image = Some ''data:sky''\<rparr>,
        \<lparr>face = Left, image = Some ''data:a''\<rparr>,
        \<lparr>face = Front, image = Some ''data:hill''\<rparr>,
        \<lparr>face = Right, image = Some ''data:c''\<rparr>,
        \<lparr>face = Back, image = Some ''data:b''\<rparr>,
        \<lparr>face = Bottom, image = None\<rparr>]"
    by (simp add: abc_files_callbacks example_slots_def slots_eval)
  have r2: "fst (run_pending [2, 0, 0] (handleBulkUpload (Some abc_files)) INITIAL_SLOTS) =
       [\<lparr>face = Top, image = Some ''data:a''\<rparr>,
        \<lparr>face = Left, image = Some ''data:b''\<rparr>,
        \<lparr>face = Front, image = Some ''data:c''\<rparr>,
        \<lparr>face = Right, image = None\<rparr>,
        \<lparr>face = Back, image = None\<rparr>,
        \<lparr>face = Bottom, image = None\<rparr>]"
    by (simp add: abc_files_callbacks INITIAL_SLOTS_def slots_eval)
  show ?thesis using abc_files_unknown len r1 r2 by blast
qed

lemma sky_names:
  "detectFaceFromFilename ''sky_px.png'' = Some Right"
  "detectFaceFromFilename ''sky_nx.png'' = Some Left"
  "detectFaceFromFilename ''clouds.png'' = None"
  by (simp_all add: classify_eval canonicalize_False)

lemma sky_px_nx_callbacks:
  "handleBulkUpload (Some [sky_px a, sky_nx b]) =
     [detected_onload (sky_px a) (Some Right), detected_onload (sky_nx b) (Some Left)]"
  "handleBulkUpload (Some [sky_nx b, sky_px a]) =
     [detected_onload (sky_nx b) (Some Left), detected_onload (sky_px a) (Some Right)]"
  by (simp_all add: handleBulkUpload_unfold sky_px_def sky_nx_def sky_names)

lemma sky_px_nx_placed:
  "detected_onload (sky_nx b) (Some Left) (detected_onload (sky_px a) (Some Right) INITIAL_SLOTS) =
     [\<lparr>face = Top, image = None\<rparr>, \<lparr>face = Left, image = Some b\<rparr>,
      \<lparr>face = Front, image = None\<rparr>, \<lparr>face = Right, image = Some a\<rparr>,
      \<lparr>face = Back, image = None\<rparr>, \<lparr>face = Bottom, image = None\<rparr>]"
  "detected_onload (sky_px a) (Some Right) (detected_onload (sky_nx b) (Some Left) INITIAL_SLOTS) =
     [\<lparr>face = Top, image = None\<rparr>, \<lparr>face = Left, image = Some b\<rparr>,
      \<lparr>face = Front, image = None\<rparr>, \<lparr>face = Right, image = Some a\<rparr>,
      \<lparr>face = Back, image = None\<rparr>, \<lparr>face = Bottom, image = None\<rparr>]"
  by (simp_all add: detected_onload_def INITIAL_SLOTS_def sky_px_def sky_nx_def)

lemma sky_px_nx_any_order:
  assumes "snd (run_pending sched (handleBulkUpload (Some [sky_px a, sky_nx b])) INITIAL_SLOTS) = []"
  shows "fst (run_pending sched (handleBulkUpload (Some [sky_px a, sky_nx b])) INITIAL_SLOTS) =
     [\<lparr>face = Top, image = None\<rparr>, \<lparr>face = Left, image = Some b\<rparr>,
      \<lparr>face = Front, image = None\<rparr>, \<lparr>face = Right, image = Some a\<rparr>,
      \<lparr>face = Back, image = None\<rparr>, \<lparr>face = Bottom, image = None\<rparr>]"
  using run_pending_two[OF assms[unfolded sky_px_nx_callbacks]]
  by (auto simp only: sky_px_nx_callbacks sky_px_nx_placed)

lemma sky_nx_px_any_order:
  assumes "snd (run_pending sched (handleBulkUpload (Some [sky_nx b, sky_px a])) INITIAL_SLOTS) = []"
  shows "fst (run_pending sched (handleBulkUpload (Some [sky_nx b, sky_px a])) INITIAL_SLOTS) =
     [\<lparr>face = Top, image = None\<rparr>, \<lparr>face = Left, image = Some b\<rparr>,
      \<lparr>face = Front, image = None\<rparr>, \<lparr>face = Right, image = Some a\<rparr>,
      \<lparr>face = Back, image = None\<rparr>, \<lparr>face = Bottom, image = None\<rparr>]"
  using run_pending_two[OF assms[unfolded sky_px_nx_callbacks]]
  by (auto simp only: sky_px_nx_callbacks sky_px_nx_placed)

lemma detected_onload_face_nth:
  "length (detected_onload file (Some f) prev) = length prev
   \<and> (\<forall>j<length prev. detected_onload file (Some f) prev ! j =
         (if face (prev ! j) = f then (prev ! j)\<lparr>image := Some (dataURL file)\<rparr> else prev ! j))"
  by (simp add: detected_onload_face)

text \<open>
  Claim C1. A bulk assignment accepts the first six files of the call. When one of the
  accepted files is classified, one update is registered for each accepted file. The
  update of a file classified as a face puts the file's image into the slot of that
  face, whatever the slot held, and leaves the other slots as they are. The update of a
  file that is not classified puts its image into the first slot that is empty when the
  update runs, and changes nothing when no slot is empty. From empty slots, the files
  \<open>sky_px.png\<close> and \<open>sky_nx.png\<close> end in Right and in Left, in either order of the input
  and in either order of completion.
\<close>

theorem detected_bulk_upload:
  assumes "list_ex (\<lambda>file. detectFaceFromFilename (name file) \<noteq> None) (take 6 fs)"
  shows "length (handleBulkUpload (Some fs)) = min 6 (length fs)
   \<and> (\<forall>k<min 6 (length fs). \<forall>prev.
        (\<forall>f. detectFaceFromFilename (name (fs ! k)) = Some f \<longrightarrow>
           length ((handleBulkUpload (Some fs) ! k) prev) = length prev
           \<and> (\<forall>j<length prev. (handleBulkUpload (Some fs) ! k) prev ! j =
                 (if face (prev ! j) = f
                  then (prev ! j)\<lparr>image := Some (dataURL (fs ! k))\<rparr> else prev ! j)))
        \<and> (detectFaceFromFilename (name (fs ! k)) = None \<longrightarrow>
           (\<exists>e<length prev. \<not> truthy (image (prev ! e)) \<and> (\<forall>j<e. truthy (image (prev ! j)))
              \<and> (handleBulkUpload (Some fs) ! k) prev
                  = prev[e := (prev ! e)\<lparr>image := Some (dataURL (fs ! k))\<rparr>])
           \<or> ((\<forall>j<length prev. truthy (image (prev ! j)))
              \<and> (handleBulkUpload (Some fs) ! k) prev = prev)))
   \<and> (\<forall>sched.
        snd (run_pending sched (handleBulkUpload (Some [sky_px a, sky_nx b])) INITIAL_SLOTS) = [] \<longrightarrow>
        fst (run_pending sched (handleBulkUpload (Some [sky_px a, sky_nx b])) INITIAL_SLOTS) =
          [\<lparr>face = Top, image = None\<rparr>, \<lparr>face = Left, image = Some b\<rparr>,
           \<lparr>face = Front, image = None\<rparr>, \<lparr>face = Right, image = Some a\<rparr>,
           \<lparr>face = Back, image = None\<rparr>, \<lparr>face = Bottom, image = None\<rparr>])
   \<and> (\<forall>sched.
        snd (run_pending sched (handleBulkUpload (Some [sky_nx b, sky_px a])) INITIAL_SLOTS) = [] \<longrightarrow>
        fst (run_pending sched (handleBulkUpload (Some [sky_nx b, sky_px a])) INITIAL_SLOTS) =
          [\<lparr>face = Top, image = None\<rparr>, \<lparr>face = Left, image = Some b\<rparr>,
           \<lparr>face = Front, image = None\<rparr>, \<lparr>face = Right, image = Some a\<rparr>,
           \<lparr>face = Back, image = None\<rparr>, \<lparr>face = Bottom, image = None\<rparr>])"
proof -
  have per_file: "\<forall>k<min 6 (length fs). \<forall>prev.
        (\<forall>f. detectFaceFromFilename (name (fs ! k)) = Some f \<longrightarrow>
           length ((handleBulkUpload (Some fs) ! k) prev) = length prev
           \<and> (\<forall>j<length prev. (handleBulkUpload (Some fs) ! k) prev ! j =
                 (if face (prev ! j) = f
                  then (prev ! j)\<lparr>image := Some (dataURL (fs ! k))\<rparr> else prev ! j)))
        \<and> (detectFaceFromFilename (name (fs ! k)) = None \<longrightarrow>
           (\<exists>e<length prev. \<not> truthy (image (prev ! e)) \<and> (\<forall>j<e. truthy (image (prev ! j)))
              \<and> (handleBulkUpload (Some fs) ! k) prev
                  = prev[e := (prev ! e)\<lparr>image := Some (dataURL (fs ! k))\<rparr>])
           \<or> ((\<forall>j<length prev. truthy (image (prev ! j)))
              \<and> (handleBulkUpload (Some fs) ! k) prev = prev))"
  proof (intro allI impI)
    fix k and prev :: "FaceSlot list"
    assume k: "k < min 6 (length fs)"
    have cb: "handleBulkUpload (Some fs) ! k
        = detected_onload (fs ! k) (detectFaceFromFilename (name (fs ! k)))"
      by (rule nth_handleBulkUpload_detected[OF assms k])
    have known: "length ((handleBulkUpload (Some fs) ! k) prev) = length prev
           \<and> (\<forall>j<length prev. (handleBulkUpload (Some fs) ! k) prev ! j =
                 (if face (prev ! j) = f
                  then (prev ! j)\<lparr>image := Some (dataURL (fs ! k))\<rparr> else prev ! j))"
      if "detectFaceFromFilename (name (fs ! k)) = Some f" for f
      using detected_onload_face_nth[of "fs ! k" f prev] by (simp only: cb that) simp
    have unknown: "(\<exists>e<length prev. \<not> truthy (image (prev ! e)) \<and> (\<forall>j<e. truthy (image (prev ! j)))
              \<and> (handleBulkUpload (Some fs) ! k) prev
                  = prev[e := (prev ! e)\<lparr>image := Some (dataURL (fs ! k))\<rparr>])
           \<or> ((\<forall>j<length prev. truthy (image (prev ! j)))
              \<and> (handleBulkUpload (Some fs) ! k) prev = prev)"
      if "detectFaceFromFilename (name (fs ! k)) = None"
      using detected_onload_unknown_cases[of prev "fs ! k"] by (simp only: cb that)
    show "(\<forall>f. detectFaceFromFilename (name (fs ! k)) = Some f \<longrightarrow>
           length ((handleBulkUpload (Some fs) ! k) prev) = length prev
           \<and> (\<forall>j<length prev. (handleBulkUpload (Some fs) ! k) prev ! j =
                 (if face (prev ! j) = f
                  then (prev ! j)\<lparr>image := Some (dataURL (fs ! k))\<rparr> else prev ! j)))
        \<and> (detectFaceFromFilename (name (fs ! k)) = None \<longrightarrow>
           (\<exists>e<length prev. \<not> truthy (image (prev ! e)) \<and> (\<forall>j<e. truthy (image (prev ! j)))
              \<and> (handleBulkUpload (Some fs) ! k) prev
                  = prev[e := (prev ! e)\<lparr>image := Some (dataURL (fs ! k))\<rparr>])
           \<or> ((\<forall>j<length prev. truthy (image (prev ! j)))
              \<and> (handleBulkUpload (Some fs) ! k) prev = prev))"
      using known unknown by blast
  qed
  show ?thesis
    using length_handleBulkUpload[of fs] per_file
      sky_px_nx_any_order[of _ a b] sky_nx_px_any_order[of _ b a]
    by blast
qed

theorem detected_bulk_upload_witness:
  "list_ex (\<lambda>file. detectFaceFromFilename (name file) \<noteq> None) (take 6 mixed_files)
   \<and> length (handleBulkUpload (Some mixed_files)) = 2
   \<and> fst (run_pending [0, 0] (handleBulkUpload (Some mixed_files)) example_slots) =
       [\<lparr>face = Top, image = Some ''data:sky''\<rparr>,
        \<lparr>face = Left, image = Some ''data:clouds''\<rparr>,
        \<lparr>face = Front, image = Some ''data:hill''\<rparr>,
        \<lparr>face = Right, image = Some ''data:px''\<rparr>,
        \<lparr>face = Back, image = None\<rparr>,
        \<lparr>face = Bottom, image = None\<rparr>]
   \<and> fst (run_pending [1, 0] (handleBulkUpload (Some mixed_files)) example_slots) =
       [\<lparr>face = Top, image = Some ''data:sky''\<rparr>,
        \<lparr>face = Left, image = Some ''data:clouds''\<rparr>,
        \<lparr>face = Front, image = Some ''data:hill''\<rparr>,
        \<lparr>face = Right, image = Some ''data:px''\<rparr>,
        \<lparr>face = Back, image = None\<rparr>,
        \<lparr>face = Bottom, image = None\<rparr>]"
proof -
  have ex: "list_ex (\<lambda>file. detectFaceFromFilename (name file) \<noteq> None) (take 6 mixed_files)"
    by (simp add: mixed_files_def sky_px_def sky_names)
  have len: "length (handleBulkUpload (Some mixed_files)) = 2"
    using detected_bulk_upload[OF ex] by (simp add: mixed_files_def)
  have cbs: "handleBulkUpload (Some mixed_files) =
      [detected_onload \<lparr>name = ''clouds.png'', dataURL = ''data:clouds''\<rparr> None,
       detected_onload (sky_px ''data:px'') (Some Right)]"
    by (simp add: handleBulkUpload_unfold mixed_files_def sky_px_def sky_names)
  have r1: "fst (run_pending [0, 0] (handleBulkUpload (Some mixed_files)) example_slots) =
       [\<lparr>face = Top, image = Some ''data:sky''\<rparr>,
        \<lparr>face = Left, image = Some ''data:clouds''\<rparr>,
        \<lparr>face = Front, image = Some ''data:hill''\<rparr>,
        \<lparr>face = Right, image = Some ''data:px''\<rparr>,
        \<lparr>face = Back, image = None\<rparr>,
        \<lparr>face = Bottom, image = None\<rparr>]"
    by (simp add: cbs example_slots_def slots_eval sky_px_def)
  have r2: "fst (run_pending [1, 0] (handleBulkUpload (Some mixed_files)) example_slots) =
       [\<lparr>face = Top, image = Some ''data:sky''\<rparr>,
        \<lparr>face = Left, image = Some ''data:clouds''\<rparr>,
        \<lparr>face = Front, image = Some ''data:hill''\<rparr>,
        \<lparr>face = Right, image = Some ''data:px''\<rparr>,
        \<lparr>face = Back, image = None\<rparr>,
        \<lparr>face = Bottom, image = None\<rparr>]"
    by (simp add: cbs example_slots_def slots_eval sky_px_def)
  show ?thesis using ex len r1 r2 by blast
qed

section \<open>Properties of a single dropped file\<close>

lemma assign_onload_update:
  "assign_onload index f prev =
     (if index < length prev then prev[index := (prev ! index)\<lparr>image := Some (dataURL f)\<rparr>]
      else prev)"
  by (simp add: assign_onload_def map_index_update)

text \<open>
  Claim C10. A drop of exactly one file on the page outside the slots changes no slot and
  registers nothing; a drop there reaches the bulk assignment exactly when it has more
  than one file. A drop of one file on a slot registers one update, which puts the
  file's image into that slot and leaves the other slots as they are, whatever the name
  of the file: the classifier is not consulted.
\<close>

theorem single_file_drop:
  "handleGlobalDrop [f] st = (st\<lparr>isDraggingFile := False\<rparr>, [])
   \<and> slots (fst (handleGlobalDrop [f] st)) = slots st
   \<and> handleGlobalDrop files st =
       (st\<lparr>isDraggingFile := False\<rparr>,
        if length files > 1 then handleBulkUpload (Some files) else [])
   \<and> drop_on_slot [f] targetIndex st =
       Inr (st\<lparr>dragOverIndex := None, isDraggingFile := False, draggedIndex := None\<rparr>,
            [assign_onload targetIndex f])
   \<and> assign_onload targetIndex f prev =
       (if targetIndex < length prev
        then prev[targetIndex := (prev ! targetIndex)\<lparr>image := Some (dataURL f)\<rparr>]
        else prev)
   \<and> assign_onload targetIndex (f\<lparr>name := nm\<rparr>) = assign_onload targetIndex f"
proof (intro conjI)
  show "assign_onload targetIndex f prev =
       (if targetIndex < length prev
        then prev[targetIndex := (prev ! targetIndex)\<lparr>image := Some (dataURL f)\<rparr>]
        else prev)"
    by (rule assign_onload_update)
  show "assign_onload targetIndex (f\<lparr>name := nm\<rparr>) = assign_onload targetIndex f"
  proof
    fix ss
    have "dataURL (f\<lparr>name := nm\<rparr>) = dataURL f" by simp
    then show "assign_onload targetIndex (f\<lparr>name := nm\<rparr>) ss = assign_onload targetIndex f ss"
      by (simp only: assign_onload_def)
  qed
qed (simp_all add: handleGlobalDrop_def drop_on_slot_def handleDrop_def handleFileChange_def Let_def)

section \<open>Properties of the swap\<close>

text \<open>
  Claim C5. For two indices of slots, the swap leaves every face where it is, exchanges
  the images of the two slots and leaves every other slot as it is; a second swap of
  the same two indices gives the slots back as they were. Dropping a dragged slot on
  another one performs this swap.
\<close>

theorem swap_exchanges_images:
  assumes "i < length ss" and "j < length ss"
  shows "\<exists>ss'. swap i j ss = Inr ss' \<and> map face ss' = map face ss
     \<and> image (ss' ! i) = image (ss ! j) \<and> image (ss' ! j) = image (ss ! i)
     \<and> (\<forall>k<length ss. k \<noteq> i \<and> k \<noteq> j \<longrightarrow> ss' ! k = ss ! k)
     \<and> swap i j ss' = Inr ss
     \<and> (i \<noteq> j \<longrightarrow>
          handleDrop [] j \<lparr>slots = ss, exportFormat = fmt, draggedIndex = Some i,
                            dragOverIndex = over, isDraggingFile = dragging\<rparr>
          = Inr (\<lparr>slots = ss', exportFormat = fmt, draggedIndex = None,
                  dragOverIndex = None, isDraggingFile = False\<rparr>, []))"
proof -
  let ?ss' = "ss[i := (ss ! i)\<lparr>image := image (ss ! j)\<rparr>,
                 j := (ss[i := (ss ! i)\<lparr>image := image (ss ! j)\<rparr>] ! j)\<lparr>image := image (ss ! i)\<rparr>]"
  have sw: "swap i j ss = Inr ?ss'"
    using assms by (simp add: swap_def Let_def)
  have faces: "map face ?ss' = map face ss"
    using assms by (simp add: list_eq_iff_nth_eq nth_list_update)
  have imi: "image (?ss' ! i) = image (ss ! j)"
    using assms by (simp add: nth_list_update)
  have imj: "image (?ss' ! j) = image (ss ! i)"
    using assms by (simp add: nth_list_update)
  have others: "\<forall>k<length ss. k \<noteq> i \<and> k \<noteq> j \<longrightarrow> ?ss' ! k = ss ! k"
    by (simp add: nth_list_update)
  have twice: "swap i j ?ss' = Inr ss"
    using assms by (simp add: swap_def Let_def list_eq_iff_nth_eq nth_list_update)
  have dropped: "i \<noteq> j \<longrightarrow>
          handleDrop [] j \<lparr>slots = ss, exportFormat = fmt, draggedIndex = Some i,
                            dragOverIndex = over, isDraggingFile = dragging\<rparr>
          = Inr (\<lparr>slots = ?ss', exportFormat = fmt, draggedIndex = None,
                  dragOverIndex = None, isDraggingFile = False\<rparr>, [])"
    using sw by (simp add: handleDrop_def)
  show ?thesis
    using sw faces imi imj others twice dropped by blast
qed

theorem swap_exchanges_images_witness:
  "(0::nat) < length example_slots \<and> (2::nat) < length example_slots
   \<and> swap 0 2 example_slots = Inr
       [\<lparr>face = Top, image = Some ''data:hill''\<rparr>,
        \<lparr>face = Left, image = None\<rparr>,
        \<lparr>face = Front, image = Some ''data:sky''\<rparr>,
        \<lparr>face = Right, image = None\<rparr>,
        \<lparr>face = Back, image = None\<rparr>,
        \<lparr>face = Bottom, image = None\<rparr>]
   \<and> swap 0 2 [\<lparr>face = Top, image = Some ''data:hill''\<rparr>,
        \<lparr>face = Left, image = None\<rparr>,
        \<lparr>face = Front, image = Some ''data:sky''\<rparr>,
        \<lparr>face = Right, image = None\<rparr>,
        \<lparr>face = Back, image = None\<rparr>,
        \<lparr>face = Bottom, image = None\<rparr>] = Inr example_slots"
proof -
  have a: "(0::nat) < length example_slots" and b: "(2::nat) < length example_slots"
    by (simp_all add: example_slots_def)
  have sw: "swap 0 2 example_slots = Inr
       [\<lparr>face = Top, image = Some ''data:hill''\<rparr>,
        \<lparr>face = Left, image = None\<rparr>,
        \<lparr>face = Front, image = Some ''data:sky''\<rparr>,
        \<lparr>face = Right, image = None\<rparr>,
        \<lparr>face = Back, image = None\<rparr>,
        \<lparr>face = Bottom, image = None\<rparr>]"
    by (simp add: swap_def example_slots_def Let_def)
  from swap_exchanges_images[OF a b, of fmt over dragging] sw a b
  show ?thesis by auto
qed

section \<open>Properties of the layout registry\<close>

lemma registry_keys:
  "map fst EXPORT_FORMATS =
     [''cross'', ''cross-vertical'', ''strip-horizontal'', ''strip-vertical'', ''grid-3x2'',
      ''grid-2x3'']"
  by (simp add: EXPORT_FORMATS_def)

lemma registry_geometry:
  "map (\<lambda>(k, c). (k, width c, height c, map (map_of (positions c)) all_faces)) EXPORT_FORMATS
     = map (\<lambda>(k, w, h, ps). (k, w, h, map (map_of ps) all_faces)) spec_layouts"
  by (simp add: EXPORT_FORMATS_def spec_layouts_def all_faces_def)

lemma registry_ok: "list_all (\<lambda>(k, c). layout_ok c) EXPORT_FORMATS"
  by (simp add: EXPORT_FORMATS_def layout_ok_def all_faces_def)

lemma all_faces_UNIV: "set all_faces = UNIV"
proof -
  have "f \<in> set all_faces" for f by (cases f) (simp_all add: all_faces_def)
  then show ?thesis by blast
qed

text \<open>
  Claim C7. The registry has exactly the six keys \<open>cross\<close>, \<open>cross-vertical\<close>,
  \<open>strip-horizontal\<close>, \<open>strip-vertical\<close>, \<open>grid-3x2\<close> and \<open>grid-2x3\<close>; each layout has
  the width, the height and the cell of every face that the specification enumerates;
  and in each layout every face has a cell, no two faces share a cell, and every cell
  lies inside the grid. The six faces listed are all the faces there are.
\<close>

theorem EXPORT_FORMATS_registry:
  "map fst EXPORT_FORMATS =
     [''cross'', ''cross-vertical'', ''strip-horizontal'', ''strip-vertical'', ''grid-3x2'',
      ''grid-2x3'']
   \<and> map (\<lambda>(k, c). (k, width c, height c, map (map_of (positions c)) all_faces)) EXPORT_FORMATS
       = map (\<lambda>(k, w, h, ps). (k, w, h, map (map_of ps) all_faces)) spec_layouts
   \<and> list_all (\<lambda>(k, c). layout_ok c) EXPORT_FORMATS
   \<and> set all_faces = UNIV"
  using registry_keys registry_geometry registry_ok all_faces_UNIV by blast

section \<open>Properties of the compositor\<close>

subsection \<open>The export with no image\<close>

lemma export_empty_log:
  "export_log True initial_state =
     [CreateCanvas 2048 1536, GetContext, ClearRect 0 0 2048 1536,
      Alert ''Please add at least one image before exporting.'']"
  by (simp add: export_log_def exportCubemap_def initial_state_def EXPORT_FORMATS_def
      INITIAL_SLOTS_def truthy_def FACE_SIZE_def Let_def)

text \<open>
  Claim C2 as stated does not hold where it says that no canvas is allocated before the
  check. With every slot empty, the export of the page as loaded allocates its canvas,
  asks for the context and clears the canvas before it raises the alert: the test of
  \<open>totalImages === 0\<close> comes after the allocation.
\<close>

theorem export_empty_allocates_canvas_first:
  "export_log True initial_state =
     [CreateCanvas 2048 1536, GetContext, ClearRect 0 0 2048 1536,
      Alert ''Please add at least one image before exporting.'']
   \<and> allocation_before_alert (export_log True initial_state)"
  by (simp add: export_empty_log allocation_before_alert_def)

text \<open>
  Claim C2, amended. When no slot holds an image, the layout is a registered one and the
  browser provides a 2D context, the export allocates the canvas of the layout and
  clears it, then raises the alert and stops: it registers no image to decode, draws
  nothing, and never hands a canvas to the encoder.
\<close>

theorem export_nothing_to_export:
  assumes "map_of EXPORT_FORMATS (exportFormat st) = Some format"
    and "list_all (\<lambda>s. \<not> truthy (image s)) (slots st)"
  shows "exportCubemap True st =
     Inr (\<lparr>log = [CreateCanvas (FACE_SIZE * width format) (FACE_SIZE * height format),
                 GetContext,
                 ClearRect 0 0 (FACE_SIZE * width format) (FACE_SIZE * height format),
                 Alert ''Please add at least one image before exporting.''],
           canvas = \<lparr>canvas_width = FACE_SIZE * width format,
                     canvas_height = FACE_SIZE * height format, drawn = []\<rparr>,
           imagesLoaded = 0, totalImages = 0\<rparr>, [])
     \<and> \<not> list_ex is_completion (export_log True st)"
proof -
  have "filter (\<lambda>s. truthy (image s)) (slots st) = []"
    using assms(2) by (simp add: list_all_iff)
  then show ?thesis
    using assms(1) by (simp add: exportCubemap_def export_log_def Let_def)
qed

theorem export_nothing_to_export_witness:
  "map_of EXPORT_FORMATS (exportFormat initial_state) =
      Some \<lparr>format_name = ''Cross (Horizontal)'', width = 4, height = 3,
             positions = [(Top, (1, 0)), (Left, (0, 1)), (Front, (1, 1)),
                          (Right, (2, 1)), (Back, (3, 1)), (Bottom, (1, 2))]\<rparr>
   \<and> list_all (\<lambda>s. \<not> truthy (image s)) (slots initial_state)
   \<and> exportCubemap True initial_state =
     Inr (\<lparr>log = [CreateCanvas 2048 1536, GetContext, ClearRect 0 0 2048 1536,
                 Alert ''Please add at least one image before exporting.''],
           canvas = \<lparr>canvas_width = 2048, canvas_height = 1536, drawn = []\<rparr>,
           imagesLoaded = 0, totalImages = 0\<rparr>, [])"
proof -
  let ?format = "\<lparr>format_name = ''Cross (Horizontal)'', width = 4, height = 3,
             positions = [(Top, (1, 0)), (Left, (0, 1)), (Front, (1, 1)),
                          (Right, (2, 1)), (Back, (3, 1)), (Bottom, (1, 2))]\<rparr>"
  have a: "map_of EXPORT_FORMATS (exportFormat initial_state) = Some ?format"
    by (simp add: EXPORT_FORMATS_def initial_state_def)
  have b: "list_all (\<lambda>s. \<not> truthy (image s)) (slots initial_state)"
    by (simp add: initial_state_def INITIAL_SLOTS_def truthy_def)
  show ?thesis
    using export_nothing_to_export[OF a b] a b by (simp add: FACE_SIZE_def)
qed

subsection \<open>The export in progress\<close>

lemma registered_layout_ok:
  assumes "map_of EXPORT_FORMATS key = Some format"
  shows "layout_ok format"
proof -
  have "(key, format) \<in> set EXPORT_FORMATS" using assms by (rule map_of_SomeD)
  then show ?thesis using registry_ok by (auto simp: list_all_iff)
qed

lemma layout_ok_total:
  assumes "layout_ok format"
  shows "map_of (positions format) f \<noteq> None"
proof -
  have "f \<in> set all_faces" using all_faces_UNIV by simp
  then show ?thesis using assms by (auto simp: layout_ok_def list_all_iff)
qed

lemma layout_ok_inj:
  assumes "layout_ok format" and "map_of (positions format) f = map_of (positions format) g"
  shows "f = g"
proof -
  have "inj_on (\<lambda>f. map_of (positions format) f) (set all_faces)"
    using assms(1) by (simp add: layout_ok_def distinct_map)
  then show ?thesis using assms(2) all_faces_UNIV by (auto dest: inj_onD)
qed

lemma slot_onload_eq:
  "slot_onload format slot =
     (if truthy (image slot) then [img_onload format slot (slot_image slot)] else [])"
  by (cases "image slot") (simp_all add: slot_onload_def truthy_def slot_image_def)

lemma onload_callbacks:
  "concat (map (slot_onload format) ss) =
     map (\<lambda>s. img_onload format s (slot_image s)) (filter (\<lambda>s. truthy (image s)) ss)"
  by (induction ss) (simp_all add: slot_onload_eq)

lemma img_onload_step:
  assumes "map_of (positions format) (face s) \<noteq> None"
  shows "img_onload format s img run =
     run\<lparr>canvas := (canvas run)\<lparr>drawn := drawn (canvas run) @
               [(case map_of (positions format) (face s) of
                   Some (x, y) \<Rightarrow> (img, x * FACE_SIZE, y * FACE_SIZE, FACE_SIZE, FACE_SIZE)
                 | None \<Rightarrow> (img, 0, 0, 0, 0))]\<rparr>,
         imagesLoaded := Suc (imagesLoaded run),
         log := (if Suc (imagesLoaded run) = totalImages run
                 then log run @ [ToBlob ((canvas run)\<lparr>drawn := drawn (canvas run) @
               [(case map_of (positions format) (face s) of
                   Some (x, y) \<Rightarrow> (img, x * FACE_SIZE, y * FACE_SIZE, FACE_SIZE, FACE_SIZE)
                 | None \<Rightarrow> (img, 0, 0, 0, 0))]\<rparr>) ''image/png'']
                 else log run)\<rparr>"
  using assms by (auto simp: img_onload_def drawImage_def Let_def)

lemma mset_remove_nth:
  assumes "k < length xs"
  shows "mset (take k xs @ drop (Suc k) xs) + {#xs ! k#} = mset xs"
proof -
  have "mset xs = mset (take k xs @ xs ! k # drop (Suc k) xs)"
    using id_take_nth_drop[OF assms] by simp
  then show ?thesis by simp
qed

lemma export_inv_step:
  assumes inv: "export_inv format filled run pending"
    and k: "k < length pending"
    and total: "map_of (positions format) (face (pending ! k)) \<noteq> None"
  shows "export_inv format filled
           (img_onload format (pending ! k) (slot_image (pending ! k)) run)
           (take k pending @ drop (Suc k) pending)"
proof -
  let ?s = "pending ! k"
  let ?rest = "take k pending @ drop (Suc k) pending"
  let ?run = "img_onload format ?s (slot_image ?s) run"
  from inv obtain fired where f: "mset fired + mset pending = mset filled"
    and d: "mset (drawn (canvas run)) = mset (map (draw_of format) fired)"
    and n: "imagesLoaded run = length fired"
    and t: "totalImages run = length filled"
    and w: "canvas_width (canvas run) = FACE_SIZE * width format"
    and h: "canvas_height (canvas run) = FACE_SIZE * height format"
    and c: "filter is_completion (log run) = []"
    using k by (auto simp: export_inv_def split: if_splits)
  have draw: "(case map_of (positions format) (face ?s) of
                   Some (x, y) \<Rightarrow> (slot_image ?s, x * FACE_SIZE, y * FACE_SIZE, FACE_SIZE, FACE_SIZE)
                 | None \<Rightarrow> (slot_image ?s, 0, 0, 0, 0)) = draw_of format ?s"
    by (simp add: draw_of_def split: option.splits)
  have step: "?run =
     run\<lparr>canvas := (canvas run)\<lparr>drawn := drawn (canvas run) @ [draw_of format ?s]\<rparr>,
         imagesLoaded := Suc (imagesLoaded run),
         log := (if Suc (imagesLoaded run) = totalImages run
                 then log run @ [ToBlob ((canvas run)\<lparr>drawn := drawn (canvas run) @
                        [draw_of format ?s]\<rparr>) ''image/png'']
                 else log run)\<rparr>"
    by (simp only: img_onload_step[OF total] draw)
  have "mset (fired @ [?s]) + mset ?rest = mset fired + (mset ?rest + {#?s#})"
    by simp
  also have "\<dots> = mset fired + mset pending"
    by (simp only: mset_remove_nth[OF k])
  finally have f': "mset (fired @ [?s]) + mset ?rest = mset filled"
    using f by simp
  have len: "length fired + length pending = length filled"
    using f by (metis size_mset size_union)
  have "length ?rest = length pending - 1"
    using k by simp
  then have "length ?rest = 0 \<longleftrightarrow> length pending = 1"
    using k by linarith
  then have "?rest = [] \<longleftrightarrow> length pending = 1"
    by (simp only: length_0_conv)
  then have last: "Suc (imagesLoaded run) = totalImages run \<longleftrightarrow> ?rest = []"
    using len n t by auto
  have d': "mset (drawn (canvas ?run)) = mset (map (draw_of format) (fired @ [?s]))"
    using d by (simp add: step)
  have c': "(if ?rest = []
            then filter is_completion (log ?run) = [ToBlob (canvas ?run) ''image/png'']
            else filter is_completion (log ?run) = [])"
    using c last by (simp add: step)
  have "mset (fired @ [?s]) + mset ?rest = mset filled
        \<and> mset (drawn (canvas ?run)) = mset (map (draw_of format) (fired @ [?s]))
        \<and> imagesLoaded ?run = length (fired @ [?s])
        \<and> totalImages ?run = length filled
        \<and> canvas_width (canvas ?run) = FACE_SIZE * width format
        \<and> canvas_height (canvas ?run) = FACE_SIZE * height format
        \<and> (if ?rest = []
            then filter is_completion (log ?run) = [ToBlob (canvas ?run) ''image/png'']
            else filter is_completion (log ?run) = [])"
    using f' d' c' n t w h by (simp add: step)
  then show ?thesis unfolding export_inv_def by (intro exI[of _ "fired @ [?s]"])
qed

lemma export_inv_run:
  assumes "export_inv format filled run pending"
    and "\<forall>f. map_of (positions format) f \<noteq> None"
  shows "\<exists>rest. snd (run_pending sched (map (\<lambda>s. img_onload format s (slot_image s)) pending) run)
               = map (\<lambda>s. img_onload format s (slot_image s)) rest
           \<and> export_inv format filled
               (fst (run_pending sched (map (\<lambda>s. img_onload format s (slot_image s)) pending) run))
               rest"
  using assms(1)
proof (induction sched arbitrary: run pending)
  case Nil
  then show ?case by (intro exI[of _ pending]) simp
next
  case (Cons k ks)
  show ?case
  proof (cases "k < length pending")
    case True
    let ?on = "\<lambda>s. img_onload format s (slot_image s)"
    have rest: "take k (map ?on pending) @ drop (Suc k) (map ?on pending)
        = map ?on (take k pending @ drop (Suc k) pending)"
      by (simp add: take_map drop_map)
    have "export_inv format filled (?on (pending ! k) run) (take k pending @ drop (Suc k) pending)"
      using export_inv_step[OF Cons.prems True] assms(2) by simp
    from Cons.IH[OF this] show ?thesis
      using True by (simp add: rest del: map_append)
  next
    case False
    then show ?thesis using Cons.IH[OF Cons.prems] by simp
  qed
qed

lemma run_pending_all:
  "snd (run_pending (replicate (length cbs) 0) cbs s) = []"
  by (induction cbs arbitrary: s) simp_all

lemma exportCubemap_start:
  assumes "map_of EXPORT_FORMATS (exportFormat st) = Some format"
    and "filter (\<lambda>s. truthy (image s)) (slots st) \<noteq> []"
  shows "exportCubemap True st =
     Inr (\<lparr>log = [CreateCanvas (FACE_SIZE * width format) (FACE_SIZE * height format),
                 GetContext,
                 ClearRect 0 0 (FACE_SIZE * width format) (FACE_SIZE * height format)],
           canvas = \<lparr>canvas_width = FACE_SIZE * width format,
                     canvas_height = FACE_SIZE * height format, drawn = []\<rparr>,
           imagesLoaded = 0,
           totalImages = length (filter (\<lambda>s. truthy (image s)) (slots st))\<rparr>,
          map (\<lambda>s. img_onload format s (slot_image s))
            (filter (\<lambda>s. truthy (image s)) (slots st)))"
  using assms by (simp add: exportCubemap_def Let_def onload_callbacks)

lemma export_inv_start:
  assumes "filled \<noteq> []"
  shows "export_inv format filled
     \<lparr>log = [CreateCanvas (FACE_SIZE * width format) (FACE_SIZE * height format),
                 GetContext,
                 ClearRect 0 0 (FACE_SIZE * width format) (FACE_SIZE * height format)],
           canvas = \<lparr>canvas_width = FACE_SIZE * width format,
                     canvas_height = FACE_SIZE * height format, drawn = []\<rparr>,
           imagesLoaded = 0, totalImages = length filled\<rparr> filled"
  unfolding export_inv_def using assms by (intro exI[of _ "[]"]) simp

lemma covers_draw_of:
  assumes "map_of (positions format) (face s) \<noteq> None"
  shows "covers (draw_of format s) px py \<longleftrightarrow>
     map_of (positions format) (face s) = Some (px div FACE_SIZE, py div FACE_SIZE)"
proof -
  from assms obtain x y where pos: "map_of (positions format) (face s) = Some (x, y)"
    by (cases "map_of (positions format) (face s)") auto
  have "x * 512 \<le> px \<and> px < x * 512 + 512 \<longleftrightarrow> px div 512 = x" by arith
  moreover have "y * 512 \<le> py \<and> py < y * 512 + 512 \<longleftrightarrow> py div 512 = y" by arith
  ultimately show ?thesis
    by (auto simp: covers_def draw_of_def pos FACE_SIZE_def)
qed

lemma fst_draw_of: "fst (draw_of format s) = slot_image s"
  by (simp add: draw_of_def split: option.splits prod.splits)

lemma layers_of_draws:
  assumes "\<forall>f. map_of (positions format) f \<noteq> None"
  shows "map fst (filter (\<lambda>d. covers d px py) (map (draw_of format) ss)) =
     map slot_image
       (filter (\<lambda>s. map_of (positions format) (face s)
                      = Some (px div FACE_SIZE, py div FACE_SIZE)) ss)"
  using assms by (induction ss) (simp_all add: covers_draw_of fst_draw_of)

lemma filter_unique_cell:
  assumes ok: "layout_ok format" and d: "distinct (map face ss)"
  shows "length (filter (\<lambda>s. Q s \<and> map_of (positions format) (face s) = Some cell) ss) \<le> 1"
  using d
proof (induction ss)
  case Nil
  show ?case by simp
next
  case (Cons s ss)
  show ?case
  proof (cases "Q s \<and> map_of (positions format) (face s) = Some cell")
    case True
    have "filter (\<lambda>s. Q s \<and> map_of (positions format) (face s) = Some cell) ss = []"
    proof (rule ccontr)
      assume "filter (\<lambda>s. Q s \<and> map_of (positions format) (face s) = Some cell) ss \<noteq> []"
      then obtain s' where s': "s' \<in> set ss" "map_of (positions format) (face s') = Some cell"
        by (auto simp: filter_empty_conv)
      then have "face s' = face s" using True layout_ok_inj[OF ok] by simp
      then have "face s \<in> face ` set ss" using s'(1) by (metis imageI)
      then show False using Cons.prems by simp
    qed
    then show ?thesis using True by simp
  next
    case False
    then show ?thesis using Cons by auto
  qed
qed

lemma mset_eq_short:
  assumes "length ys \<le> 1" and "mset xs = mset ys"
  shows "xs = ys"
proof (cases ys)
  case Nil
  then show ?thesis using assms(2) by simp
next
  case (Cons y ys')
  then have ys: "ys = [y]" using assms(1) by simp
  then have "mset xs = {#y#}" using assms(2) by simp
  then show ?thesis using ys by (cases xs) (auto simp: add_mset_eq_single)
qed

lemma spec_cell_layers:
  assumes ok: "layout_ok format" and d: "distinct (map face ss)"
  shows "map slot_image
       (filter (\<lambda>s. truthy (image s) \<and> map_of (positions format) (face s) = Some (col, row)) ss)
     = (case spec_cell format ss col row of None \<Rightarrow> [] | Some img \<Rightarrow> [img])"
proof -
  let ?F = "filter (\<lambda>s. truthy (image s) \<and> map_of (positions format) (face s) = Some (col, row)) ss"
  have short: "length ?F \<le> 1" by (rule filter_unique_cell[OF ok d])
  show ?thesis
  proof (cases ?F)
    case Nil
    then show ?thesis by (simp add: spec_cell_def)
  next
    case (Cons s rest)
    then have rest: "rest = []" using short by simp
    have "s \<in> set ?F" using Cons by simp
    then have "truthy (image s)" by simp
    then obtain img where img: "image s = Some img"
      by (cases "image s") (auto simp: truthy_def)
    show ?thesis by (simp add: spec_cell_def Cons rest img slot_image_def)
  qed
qed

lemma export_inv_complete_pixels:
  assumes inv: "export_inv format (filter (\<lambda>s. truthy (image s)) ss) run []"
    and ok: "layout_ok format" and d: "distinct (map face ss)"
    and px: "px < FACE_SIZE * width format" and py: "py < FACE_SIZE * height format"
  shows "layers_at (canvas run) px py =
     (case spec_cell format ss (px div FACE_SIZE) (py div FACE_SIZE) of
        None \<Rightarrow> [] | Some img \<Rightarrow> [img])"
proof -
  let ?filled = "filter (\<lambda>s. truthy (image s)) ss"
  let ?cell = "(px div FACE_SIZE, py div FACE_SIZE)"
  from inv obtain fired where f: "mset fired = mset ?filled"
    and dr: "mset (drawn (canvas run)) = mset (map (draw_of format) fired)"
    and w: "canvas_width (canvas run) = FACE_SIZE * width format"
    and h: "canvas_height (canvas run) = FACE_SIZE * height format"
    by (auto simp: export_inv_def)
  have total: "\<forall>f. map_of (positions format) f \<noteq> None"
    using layout_ok_total[OF ok] by blast
  have "mset (drawn (canvas run)) = mset (map (draw_of format) ?filled)"
    using dr f by simp
  then have "mset (map fst (filter (\<lambda>d. covers d px py) (drawn (canvas run))))
      = mset (map fst (filter (\<lambda>d. covers d px py) (map (draw_of format) ?filled)))"
    by (simp only: mset_map mset_filter)
  also have "\<dots> = mset (map slot_image
       (filter (\<lambda>s. map_of (positions format) (face s) = Some ?cell) ?filled))"
    by (simp only: layers_of_draws[OF total])
  finally have m: "mset (map fst (filter (\<lambda>d. covers d px py) (drawn (canvas run))))
      = mset (map slot_image
       (filter (\<lambda>s. map_of (positions format) (face s) = Some ?cell) ?filled))" .
  have ff: "filter (\<lambda>s. map_of (positions format) (face s) = Some ?cell) ?filled
      = filter (\<lambda>s. truthy (image s) \<and> map_of (positions format) (face s) = Some ?cell) ss"
    by (simp only: filter_filter)
  have "length (map slot_image
       (filter (\<lambda>s. map_of (positions format) (face s) = Some ?cell) ?filled)) \<le> 1"
    using filter_unique_cell[OF ok d, of "\<lambda>s. truthy (image s)" ?cell]
    by (simp only: ff length_map)
  from mset_eq_short[OF this m]
  have "map fst (filter (\<lambda>d. covers d px py) (drawn (canvas run)))
      = map slot_image
       (filter (\<lambda>s. map_of (positions format) (face s) = Some ?cell) ?filled)" .
  then show ?thesis
    using px py w h by (simp only: layers_at_def ff spec_cell_layers[OF ok d]) simp
qed

lemma export_inv_facts:
  assumes "export_inv format filled run rest"
  shows "imagesLoaded run + length rest = totalImages run"
    and "totalImages run = length filled"
    and "list_ex is_completion (log run) \<longleftrightarrow> rest = []"
    and "rest = [] \<Longrightarrow> filter is_completion (log run) = [ToBlob (canvas run) ''image/png'']"
    and "canvas_width (canvas run) = FACE_SIZE * width format"
    and "canvas_height (canvas run) = FACE_SIZE * height format"
    and "rest = [] \<Longrightarrow> mset (drawn (canvas run)) = mset (map (draw_of format) filled)"
    and "length (drawn (canvas run)) = imagesLoaded run"
    and "mset (drawn (canvas run)) \<subseteq># mset (map (draw_of format) filled)"
proof -
  from assms obtain fired where f: "mset fired + mset rest = mset filled"
    and d: "mset (drawn (canvas run)) = mset (map (draw_of format) fired)"
    and n: "imagesLoaded run = length fired"
    and t: "totalImages run = length filled"
    and w: "canvas_width (canvas run) = FACE_SIZE * width format"
    and h: "canvas_height (canvas run) = FACE_SIZE * height format"
    and c: "if rest = []
            then filter is_completion (log run) = [ToBlob (canvas run) ''image/png'']
            else filter is_completion (log run) = []"
    by (auto simp: export_inv_def)
  have len: "length fired + length rest = length filled"
    using f by (metis size_mset size_union)
  show "imagesLoaded run + length rest = totalImages run" using len n t by simp
  show "totalImages run = length filled" by (rule t)
  have "list_ex is_completion (log run) \<longleftrightarrow> filter is_completion (log run) \<noteq> []"
    by (simp add: filter_empty_conv list_ex_iff)
  then show "list_ex is_completion (log run) \<longleftrightarrow> rest = []"
    using c by (auto split: if_splits)
  show "filter is_completion (log run) = [ToBlob (canvas run) ''image/png'']" if "rest = []"
    using c that by simp
  show "canvas_width (canvas run) = FACE_SIZE * width format" by (rule w)
  show "canvas_height (canvas run) = FACE_SIZE * height format" by (rule h)
  show "mset (drawn (canvas run)) = mset (map (draw_of format) filled)" if "rest = []"
    using d f that by simp
  have "size (mset (drawn (canvas run))) = size (mset (map (draw_of format) fired))"
    by (simp only: d)
  then show "length (drawn (canvas run)) = imagesLoaded run" using n by simp
  have "mset fired \<subseteq># mset filled"
    using f by (metis mset_subset_eq_add_left)
  then have "image_mset (draw_of format) (mset fired) \<subseteq># image_mset (draw_of format) (mset filled)"
    by (rule image_mset_subseteq_mono)
  then show "mset (drawn (canvas run)) \<subseteq># mset (map (draw_of format) filled)"
    using d by simp
qed

lemma export_run_inv:
  assumes fmt: "map_of EXPORT_FORMATS (exportFormat st) = Some format"
    and ne: "filter (\<lambda>s. truthy (image s)) (slots st) \<noteq> []"
    and start: "exportCubemap True st = Inr (run0, cbs)"
  shows "\<exists>rest. length (snd (run_pending sched cbs run0)) = length rest
           \<and> export_inv format (filter (\<lambda>s. truthy (image s)) (slots st))
               (fst (run_pending sched cbs run0)) rest"
proof -
  let ?filled = "filter (\<lambda>s. truthy (image s)) (slots st)"
  let ?on = "\<lambda>s. img_onload format s (slot_image s)"
  have total: "\<forall>f. map_of (positions format) f \<noteq> None"
    using layout_ok_total[OF registered_layout_ok[OF fmt]] by blast
  have run0: "run0 = \<lparr>log = [CreateCanvas (FACE_SIZE * width format) (FACE_SIZE * height format),
                 GetContext,
                 ClearRect 0 0 (FACE_SIZE * width format) (FACE_SIZE * height format)],
           canvas = \<lparr>canvas_width = FACE_SIZE * width format,
                     canvas_height = FACE_SIZE * height format, drawn = []\<rparr>,
           imagesLoaded = 0, totalImages = length ?filled\<rparr>"
    and cbs: "cbs = map ?on ?filled"
    using start exportCubemap_start[OF fmt ne] by simp_all
  have "export_inv format ?filled run0 ?filled"
    unfolding run0 by (rule export_inv_start[OF ne])
  from export_inv_run[OF this total, of sched]
  obtain rest where "snd (run_pending sched (map ?on ?filled) run0) = map ?on rest"
    and "export_inv format ?filled (fst (run_pending sched (map ?on ?filled) run0)) rest"
    by blast
  then show ?thesis unfolding cbs by (intro exI[of _ rest]) simp
qed

lemma exportCubemap_cases:
  assumes "exportCubemap has_context st = Inr (run0, cbs)"
  obtains (no_context) "\<not> has_context" "cbs = []" "imagesLoaded run0 = 0" "totalImages run0 = 0"
      "filter is_completion (log run0) = []" "drawn (canvas run0) = []"
  | (no_image) "has_context" "filter (\<lambda>s. truthy (image s)) (slots st) = []" "cbs = []"
      "imagesLoaded run0 = 0" "totalImages run0 = 0" "filter is_completion (log run0) = []"
      "drawn (canvas run0) = []"
  | (images) format where "has_context" "map_of EXPORT_FORMATS (exportFormat st) = Some format"
      "filter (\<lambda>s. truthy (image s)) (slots st) \<noteq> []"
proof (cases "map_of EXPORT_FORMATS (exportFormat st)")
  case None
  then show ?thesis using assms by (simp add: exportCubemap_def)
next
  case (Some format)
  show ?thesis
  proof (cases has_context)
    case False
    then show ?thesis
      using assms Some no_context by (auto simp: exportCubemap_def Let_def)
  next
    case True
    show ?thesis
    proof (cases "filter (\<lambda>s. truthy (image s)) (slots st) = []")
      case empty: True
      then show ?thesis
        using assms Some True no_image by (auto simp: exportCubemap_def Let_def)
    next
      case False
      then show ?thesis using True Some images by blast
    qed
  qed
qed

lemma front_only_start:
  assumes "img \<noteq> []"
  shows "exportCubemap True (front_only img) = Inr (front_run0, front_cbs img)"
proof -
  have fmt: "map_of EXPORT_FORMATS (exportFormat (front_only img)) = Some cross_format"
    by (simp add: front_only_def EXPORT_FORMATS_def cross_format_def)
  have filled: "filter (\<lambda>s. truthy (image s)) (slots (front_only img))
      = [\<lparr>face = Front, image = Some img\<rparr>]"
    using assms by (simp add: front_only_def INITIAL_SLOTS_def truthy_def)
  then have ne: "filter (\<lambda>s. truthy (image s)) (slots (front_only img)) \<noteq> []" by simp
  show ?thesis
    by (simp only: exportCubemap_start[OF fmt ne] filled)
       (simp add: front_run0_def front_cbs_def cross_format_def FACE_SIZE_def slot_image_def)
qed

lemma front_only_run:
  "run_pending [0] (front_cbs img) front_run0 =
     (\<lparr>log = [CreateCanvas 2048 1536, GetContext, ClearRect 0 0 2048 1536,
              ToBlob \<lparr>canvas_width = 2048, canvas_height = 1536,
                      drawn = [(img, 512, 512, 512, 512)]\<rparr> ''image/png''],
       canvas = \<lparr>canvas_width = 2048, canvas_height = 1536,
                 drawn = [(img, 512, 512, 512, 512)]\<rparr>,
       imagesLoaded = 1, totalImages = 1\<rparr>, [])"
  by (simp add: front_cbs_def front_run0_def img_onload_def cross_format_def drawImage_def
      FACE_SIZE_def Let_def)

lemma two_images_format:
  "map_of EXPORT_FORMATS (exportFormat two_images) = Some cross_format"
  by (simp add: two_images_def EXPORT_FORMATS_def cross_format_def)

lemma two_images_filled:
  "filter (\<lambda>s. truthy (image s)) (slots two_images)
     = [\<lparr>face = Top, image = Some ''data:sky''\<rparr>, \<lparr>face = Front, image = Some ''data:hill''\<rparr>]"
  by (simp add: two_images_def example_slots_def truthy_def)

lemma two_images_start: "exportCubemap True two_images = Inr (two_run0, two_cbs)"
proof -
  have ne: "filter (\<lambda>s. truthy (image s)) (slots two_images) \<noteq> []"
    by (simp add: two_images_filled)
  show ?thesis
    by (simp only: exportCubemap_start[OF two_images_format ne] two_images_filled)
       (simp add: two_run0_def two_cbs_def cross_format_def FACE_SIZE_def slot_image_def)
qed

lemma two_images_one_decoded:
  "run_pending [1] two_cbs two_run0 =
     (\<lparr>log = [CreateCanvas 2048 1536, GetContext, ClearRect 0 0 2048 1536],
       canvas = \<lparr>canvas_width = 2048, canvas_height = 1536,
                 drawn = [(''data:hill'', 512, 512, 512, 512)]\<rparr>,
       imagesLoaded = 1, totalImages = 2\<rparr>,
      [img_onload cross_format \<lparr>face = Top, image = Some ''data:sky''\<rparr> ''data:sky''])"
  by (simp add: two_cbs_def two_run0_def img_onload_def cross_format_def drawImage_def
      FACE_SIZE_def Let_def)

lemma two_images_both_decoded:
  "run_pending [1, 0] two_cbs two_run0 =
     (\<lparr>log = [CreateCanvas 2048 1536, GetContext, ClearRect 0 0 2048 1536,
              ToBlob \<lparr>canvas_width = 2048, canvas_height = 1536,
                      drawn = [(''data:hill'', 512, 512, 512, 512),
                               (''data:sky'', 512, 0, 512, 512)]\<rparr> ''image/png''],
       canvas = \<lparr>canvas_width = 2048, canvas_height = 1536,
                 drawn = [(''data:hill'', 512, 512, 512, 512),
                          (''data:sky'', 512, 0, 512, 512)]\<rparr>,
       imagesLoaded = 2, totalImages = 2\<rparr>, [])"
  by (simp add: two_cbs_def two_run0_def img_onload_def cross_format_def drawImage_def
      FACE_SIZE_def Let_def)

text \<open>
  Claim C8. In every state that an export reaches, whatever images have been decoded so
  far and in whatever order, the number of images counted and the number of decodes
  still outstanding add up to the number of non-empty slots counted when the export
  started; the images counted are the images drawn: there are as many \<open>drawImage\<close>
  calls on the canvas as the counter says, each the call that places the image of a
  non-empty slot in the cell of its face, no slot more often than it occurs. The canvas
  has been handed to the encoder only if no decode is outstanding and the number of
  images drawn equals that count; the canvas handed over is then the one on which the
  image of every non-empty slot has been drawn. Once every image of a non-empty
  collection has been drawn, the canvas has been handed over, once, as it then is.
\<close>

theorem export_completion_after_all_loaded:
  assumes "exportCubemap has_context st = Inr (run0, cbs)"
  shows "imagesLoaded (fst (run_pending sched cbs run0)) + length (snd (run_pending sched cbs run0))
           = totalImages (fst (run_pending sched cbs run0))
   \<and> (has_context \<longrightarrow> totalImages (fst (run_pending sched cbs run0))
           = length (filter (\<lambda>s. truthy (image s)) (slots st)))
   \<and> (list_ex is_completion (log (fst (run_pending sched cbs run0))) \<longrightarrow>
         snd (run_pending sched cbs run0) = []
         \<and> imagesLoaded (fst (run_pending sched cbs run0))
             = length (filter (\<lambda>s. truthy (image s)) (slots st)))
   \<and> (cbs \<noteq> [] \<and> snd (run_pending sched cbs run0) = [] \<longrightarrow>
         filter is_completion (log (fst (run_pending sched cbs run0)))
           = [ToBlob (canvas (fst (run_pending sched cbs run0))) ''image/png''])
   \<and> length (drawn (canvas (fst (run_pending sched cbs run0))))
           = imagesLoaded (fst (run_pending sched cbs run0))
   \<and> (\<forall>format. map_of EXPORT_FORMATS (exportFormat st) = Some format \<longrightarrow>
         mset (drawn (canvas (fst (run_pending sched cbs run0))))
           \<subseteq># mset (map (draw_of format) (filter (\<lambda>s. truthy (image s)) (slots st))))
   \<and> (list_ex is_completion (log (fst (run_pending sched cbs run0))) \<longrightarrow>
         filter is_completion (log (fst (run_pending sched cbs run0)))
           = [ToBlob (canvas (fst (run_pending sched cbs run0))) ''image/png'']
         \<and> length (drawn (canvas (fst (run_pending sched cbs run0))))
             = length (filter (\<lambda>s. truthy (image s)) (slots st))
         \<and> (\<forall>format. map_of EXPORT_FORMATS (exportFormat st) = Some format \<longrightarrow>
               mset (drawn (canvas (fst (run_pending sched cbs run0))))
                 = mset (map (draw_of format) (filter (\<lambda>s. truthy (image s)) (slots st)))))"
  using assms
proof (cases rule: exportCubemap_cases)
  case no_context
  then show ?thesis
    by (simp add: run_pending_none list_ex_iff filter_empty_conv)
next
  case no_image
  then show ?thesis
    by (simp add: run_pending_none list_ex_iff filter_empty_conv)
next
  case (images format)
  let ?run = "fst (run_pending sched cbs run0)"
  let ?filled = "filter (\<lambda>s. truthy (image s)) (slots st)"
  have start: "exportCubemap True st = Inr (run0, cbs)"
    using assms images(1) by simp
  from export_run_inv[OF images(2,3) start, of sched]
  obtain rest where len: "length (snd (run_pending sched cbs run0)) = length rest"
    and inv: "export_inv format ?filled ?run rest"
    by blast
  have nil: "snd (run_pending sched cbs run0) = [] \<longleftrightarrow> rest = []"
    using len by (metis length_0_conv)
  note facts = export_inv_facts[OF inv]
  have fmt: "format' = format" if "map_of EXPORT_FORMATS (exportFormat st) = Some format'"
    for format'
    using that images(2) by simp
  have counted: "imagesLoaded ?run + length (snd (run_pending sched cbs run0)) = totalImages ?run"
    using facts(1) len by simp
  have total: "totalImages ?run = length ?filled" by (rule facts(2))
  have only: "snd (run_pending sched cbs run0) = [] \<and> imagesLoaded ?run = length ?filled"
    if "list_ex is_completion (log ?run)"
    using that facts(1,2,3) nil by simp
  have handed: "filter is_completion (log ?run) = [ToBlob (canvas ?run) ''image/png'']"
    if "snd (run_pending sched cbs run0) = []"
    using that facts(4) nil by simp
  have drawn_count: "length (drawn (canvas ?run)) = imagesLoaded ?run" by (rule facts(8))
  have drawn_sub: "mset (drawn (canvas ?run)) \<subseteq># mset (map (draw_of format') ?filled)"
    if "map_of EXPORT_FORMATS (exportFormat st) = Some format'" for format'
    using facts(9) fmt[OF that] by simp
  have drawn_all: "mset (drawn (canvas ?run)) = mset (map (draw_of format') ?filled)"
    if "list_ex is_completion (log ?run)"
      and "map_of EXPORT_FORMATS (exportFormat st) = Some format'" for format'
    using facts(3,7) that(1) fmt[OF that(2)] by simp
  show ?thesis
    using counted total only handed drawn_count drawn_sub drawn_all by (simp only:) blast
qed

theorem export_completion_after_all_loaded_witness:
  "exportCubemap True (front_only ''data:hill'') = Inr (front_run0, front_cbs ''data:hill'')
   \<and> list_ex is_completion (log (fst (run_pending [0] (front_cbs ''data:hill'') front_run0)))
   \<and> snd (run_pending [0] (front_cbs ''data:hill'') front_run0) = []
   \<and> imagesLoaded (fst (run_pending [0] (front_cbs ''data:hill'') front_run0)) = 1
   \<and> length (filter (\<lambda>s. truthy (image s)) (slots (front_only ''data:hill''))) = 1
   \<and> front_cbs ''data:hill'' \<noteq> []
   \<and> exportCubemap True two_images = Inr (two_run0, two_cbs)
   \<and> map_of EXPORT_FORMATS (exportFormat two_images) = Some cross_format
   \<and> \<not> list_ex is_completion (log (fst (run_pending [1] two_cbs two_run0)))
   \<and> length (snd (run_pending [1] two_cbs two_run0)) = 1
   \<and> drawn (canvas (fst (run_pending [1] two_cbs two_run0)))
       = [(''data:hill'', 512, 512, 512, 512)]
   \<and> list_ex is_completion (log (fst (run_pending [1, 0] two_cbs two_run0)))
   \<and> snd (run_pending [1, 0] two_cbs two_run0) = []
   \<and> filter is_completion (log (fst (run_pending [1, 0] two_cbs two_run0)))
       = [ToBlob (canvas (fst (run_pending [1, 0] two_cbs two_run0))) ''image/png'']
   \<and> drawn (canvas (fst (run_pending [1, 0] two_cbs two_run0)))
       = [(''data:hill'', 512, 512, 512, 512), (''data:sky'', 512, 0, 512, 512)]
   \<and> mset (drawn (canvas (fst (run_pending [1, 0] two_cbs two_run0))))
       = mset (map (draw_of cross_format) (filter (\<lambda>s. truthy (image s)) (slots two_images)))"
proof -
  have start: "exportCubemap True (front_only ''data:hill'')
      = Inr (front_run0, front_cbs ''data:hill'')"
    by (rule front_only_start) simp
  have completed: "list_ex is_completion (log (fst (run_pending [0] (front_cbs ''data:hill'') front_run0)))"
    by (simp only: front_only_run) simp
  have ne: "front_cbs ''data:hill'' \<noteq> []" by (simp add: front_cbs_def)
  from export_completion_after_all_loaded[OF start, of "[0]"] completed start ne
  have one: "exportCubemap True (front_only ''data:hill'') = Inr (front_run0, front_cbs ''data:hill'')
   \<and> list_ex is_completion (log (fst (run_pending [0] (front_cbs ''data:hill'') front_run0)))
   \<and> snd (run_pending [0] (front_cbs ''data:hill'') front_run0) = []
   \<and> imagesLoaded (fst (run_pending [0] (front_cbs ''data:hill'') front_run0)) = 1
   \<and> length (filter (\<lambda>s. truthy (image s)) (slots (front_only ''data:hill''))) = 1
   \<and> front_cbs ''data:hill'' \<noteq> []"
    by (simp only: front_only_run) simp
  have partial: "\<not> list_ex is_completion (log (fst (run_pending [1] two_cbs two_run0)))
   \<and> length (snd (run_pending [1] two_cbs two_run0)) = 1
   \<and> drawn (canvas (fst (run_pending [1] two_cbs two_run0)))
       = [(''data:hill'', 512, 512, 512, 512)]"
    by (simp only: two_images_one_decoded) simp
  have both: "list_ex is_completion (log (fst (run_pending [1, 0] two_cbs two_run0)))
   \<and> snd (run_pending [1, 0] two_cbs two_run0) = []
   \<and> drawn (canvas (fst (run_pending [1, 0] two_cbs two_run0)))
       = [(''data:hill'', 512, 512, 512, 512), (''data:sky'', 512, 0, 512, 512)]"
    by (simp only: two_images_both_decoded) simp
  from export_completion_after_all_loaded[OF two_images_start, of "[1, 0]"] both
    two_images_format
  have all_drawn: "filter is_completion (log (fst (run_pending [1, 0] two_cbs two_run0)))
       = [ToBlob (canvas (fst (run_pending [1, 0] two_cbs two_run0))) ''image/png'']
   \<and> mset (drawn (canvas (fst (run_pending [1, 0] two_cbs two_run0))))
       = mset (map (draw_of cross_format) (filter (\<lambda>s. truthy (image s)) (slots two_images)))"
    by blast
  show ?thesis
    using one partial both all_drawn two_images_start two_images_format by blast
qed

lemma export_composite_general:
  assumes fmt: "map_of EXPORT_FORMATS (exportFormat st) = Some format"
    and d: "distinct (map face (slots st))"
    and some: "list_ex (\<lambda>s. truthy (image s)) (slots st)"
  shows "\<exists>run0 cbs. exportCubemap True st = Inr (run0, cbs)
     \<and> canvas run0 = \<lparr>canvas_width = FACE_SIZE * width format,
                       canvas_height = FACE_SIZE * height format, drawn = []\<rparr>
     \<and> snd (run_pending (replicate (length cbs) 0) cbs run0) = []
     \<and> (\<forall>sched. snd (run_pending sched cbs run0) = [] \<longrightarrow>
          canvas_width (canvas (fst (run_pending sched cbs run0))) = FACE_SIZE * width format
        \<and> canvas_height (canvas (fst (run_pending sched cbs run0))) = FACE_SIZE * height format
        \<and> mset (drawn (canvas (fst (run_pending sched cbs run0))))
            = mset (map (draw_of format) (filter (\<lambda>s. truthy (image s)) (slots st)))
        \<and> (\<forall>px py. px < FACE_SIZE * width format \<and> py < FACE_SIZE * height format \<longrightarrow>
              layers_at (canvas (fst (run_pending sched cbs run0))) px py =
                (case spec_cell format (slots st) (px div FACE_SIZE) (py div FACE_SIZE) of
                   None \<Rightarrow> [] | Some img \<Rightarrow> [img]))
        \<and> filter is_completion (log (fst (run_pending sched cbs run0)))
            = [ToBlob (canvas (fst (run_pending sched cbs run0))) ''image/png''])"
proof -
  let ?filled = "filter (\<lambda>s. truthy (image s)) (slots st)"
  let ?run0 = "\<lparr>log = [CreateCanvas (FACE_SIZE * width format) (FACE_SIZE * height format),
                 GetContext,
                 ClearRect 0 0 (FACE_SIZE * width format) (FACE_SIZE * height format)],
           canvas = \<lparr>canvas_width = FACE_SIZE * width format,
                     canvas_height = FACE_SIZE * height format, drawn = []\<rparr>,
           imagesLoaded = 0, totalImages = length ?filled\<rparr>"
  let ?cbs = "map (\<lambda>s. img_onload format s (slot_image s)) ?filled"
  have ne: "?filled \<noteq> []"
    using some by (auto simp: list_ex_iff filter_empty_conv)
  have start: "exportCubemap True st = Inr (?run0, ?cbs)"
    by (rule exportCubemap_start[OF fmt ne])
  have ok: "layout_ok format" by (rule registered_layout_ok[OF fmt])
  have complete: "canvas_width (canvas (fst (run_pending sched ?cbs ?run0))) = FACE_SIZE * width format
        \<and> canvas_height (canvas (fst (run_pending sched ?cbs ?run0))) = FACE_SIZE * height format
        \<and> mset (drawn (canvas (fst (run_pending sched ?cbs ?run0))))
            = mset (map (draw_of format) ?filled)
        \<and> (\<forall>px py. px < FACE_SIZE * width format \<and> py < FACE_SIZE * height format \<longrightarrow>
              layers_at (canvas (fst (run_pending sched ?cbs ?run0))) px py =
                (case spec_cell format (slots st) (px div FACE_SIZE) (py div FACE_SIZE) of
                   None \<Rightarrow> [] | Some img \<Rightarrow> [img]))
        \<and> filter is_completion (log (fst (run_pending sched ?cbs ?run0)))
            = [ToBlob (canvas (fst (run_pending sched ?cbs ?run0))) ''image/png'']"
    if fin: "snd (run_pending sched ?cbs ?run0) = []" for sched
  proof -
    from export_run_inv[OF fmt ne start, of sched]
    obtain rest where len: "length (snd (run_pending sched ?cbs ?run0)) = length rest"
      and inv: "export_inv format ?filled (fst (run_pending sched ?cbs ?run0)) rest"
      by blast
    have rest: "rest = []" using len fin by simp
    note inv' = inv[unfolded rest]
    show ?thesis
      using export_inv_facts(4,5,6,7)[OF inv'] export_inv_complete_pixels[OF inv' ok d]
      by simp
  qed
  show ?thesis
    using start complete run_pending_all[of ?cbs ?run0]
    by (intro exI[of _ ?run0] exI[of _ ?cbs]) simp
qed

lemma front_only_cell:
  assumes "img \<noteq> []"
  shows "spec_cell cross_format (slots (front_only img)) col row
     = (if col = 1 \<and> row = 1 then Some img else None)"
  using assms
  by (simp add: spec_cell_def front_only_def INITIAL_SLOTS_def cross_format_def truthy_def)

lemma front_only_composite:
  assumes img: "img \<noteq> []" and fin: "snd (run_pending sched (front_cbs img) front_run0) = []"
  shows "canvas_width (canvas (fst (run_pending sched (front_cbs img) front_run0))) = 4 * FACE_SIZE
     \<and> canvas_height (canvas (fst (run_pending sched (front_cbs img) front_run0))) = 3 * FACE_SIZE
     \<and> (\<forall>px py. layers_at (canvas (fst (run_pending sched (front_cbs img) front_run0))) px py =
           (if px < 4 * FACE_SIZE \<and> py < 3 * FACE_SIZE
               \<and> px div FACE_SIZE = 1 \<and> py div FACE_SIZE = 1
            then [img] else []))"
proof -
  have fmt: "map_of EXPORT_FORMATS (exportFormat (front_only img)) = Some cross_format"
    by (simp add: front_only_def EXPORT_FORMATS_def cross_format_def)
  have d: "distinct (map face (slots (front_only img)))"
    by (simp add: front_only_def INITIAL_SLOTS_def)
  have some: "list_ex (\<lambda>s. truthy (image s)) (slots (front_only img))"
    using img by (simp add: front_only_def INITIAL_SLOTS_def truthy_def)
  from export_composite_general[OF fmt d some] front_only_start[OF img]
  have gen: "canvas_width (canvas (fst (run_pending sched (front_cbs img) front_run0)))
          = FACE_SIZE * width cross_format
        \<and> canvas_height (canvas (fst (run_pending sched (front_cbs img) front_run0)))
          = FACE_SIZE * height cross_format
        \<and> (\<forall>px py. px < FACE_SIZE * width cross_format \<and> py < FACE_SIZE * height cross_format \<longrightarrow>
              layers_at (canvas (fst (run_pending sched (front_cbs img) front_run0))) px py =
                (case spec_cell cross_format (slots (front_only img))
                        (px div FACE_SIZE) (py div FACE_SIZE) of
                   None \<Rightarrow> [] | Some img \<Rightarrow> [img]))"
    using fin by auto
  have wh: "width cross_format = 4" "height cross_format = 3"
    by (simp_all add: cross_format_def)
  show ?thesis
  proof (intro conjI allI)
    show "canvas_width (canvas (fst (run_pending sched (front_cbs img) front_run0))) = 4 * FACE_SIZE"
      using gen by (simp add: wh)
    show "canvas_height (canvas (fst (run_pending sched (front_cbs img) front_run0))) = 3 * FACE_SIZE"
      using gen by (simp add: wh)
    fix px py
    show "layers_at (canvas (fst (run_pending sched (front_cbs img) front_run0))) px py =
           (if px < 4 * FACE_SIZE \<and> py < 3 * FACE_SIZE
               \<and> px div FACE_SIZE = 1 \<and> py div FACE_SIZE = 1
            then [img] else [])"
    proof (cases "px < 4 * FACE_SIZE \<and> py < 3 * FACE_SIZE")
      case True
      then have "layers_at (canvas (fst (run_pending sched (front_cbs img) front_run0))) px py =
                (case spec_cell cross_format (slots (front_only img))
                        (px div FACE_SIZE) (py div FACE_SIZE) of
                   None \<Rightarrow> [] | Some img \<Rightarrow> [img])"
        using gen by (simp add: wh mult.commute)
      then show ?thesis using True by (simp add: front_only_cell[OF img])
    next
      case False
      then have "layers_at (canvas (fst (run_pending sched (front_cbs img) front_run0))) px py = []"
        using gen by (auto simp: layers_at_def wh)
      then show ?thesis using False by auto
    qed
  qed
qed

text \<open>
  Claim C6. The size of a cell is the constant \<open>FACE_SIZE\<close>, 512 pixels. For a registered
  layout and slots of distinct faces of which at least one holds an image (the export of
  no image at all is the specification's error condition), the export allocates a
  transparent canvas of the layout's width and height in cells, times \<open>FACE_SIZE\<close>, and
  registers one decode for each non-empty slot; the decodes can all complete. Once they
  have, in whatever order, the canvas has the same size, each non-empty slot's image has
  been drawn once, as a \<open>FACE_SIZE\<close> square at the cell of the slot's face, every pixel
  of the canvas shows exactly the image of the slot mapped to its cell, or nothing when
  that slot is empty or no face is mapped there, and this canvas has been handed to the
  encoder. With an image in Front only, under \<open>cross\<close>, the canvas is 4 by 3 cells and
  only the pixels of the cell at column 1, row 1 show the image.
\<close>

theorem export_composite:
  assumes fmt: "map_of EXPORT_FORMATS (exportFormat st) = Some format"
    and d: "distinct (map face (slots st))"
    and some: "list_ex (\<lambda>s. truthy (image s)) (slots st)"
  shows "(\<exists>run0 cbs. exportCubemap True st = Inr (run0, cbs)
     \<and> canvas run0 = \<lparr>canvas_width = FACE_SIZE * width format,
                       canvas_height = FACE_SIZE * height format, drawn = []\<rparr>
     \<and> snd (run_pending (replicate (length cbs) 0) cbs run0) = []
     \<and> (\<forall>sched. snd (run_pending sched cbs run0) = [] \<longrightarrow>
          canvas_width (canvas (fst (run_pending sched cbs run0))) = FACE_SIZE * width format
        \<and> canvas_height (canvas (fst (run_pending sched cbs run0))) = FACE_SIZE * height format
        \<and> mset (drawn (canvas (fst (run_pending sched cbs run0))))
            = mset (map (draw_of format) (filter (\<lambda>s. truthy (image s)) (slots st)))
        \<and> (\<forall>px py. px < FACE_SIZE * width format \<and> py < FACE_SIZE * height format \<longrightarrow>
              layers_at (canvas (fst (run_pending sched cbs run0))) px py =
                (case spec_cell format (slots st) (px div FACE_SIZE) (py div FACE_SIZE) of
                   None \<Rightarrow> [] | Some img \<Rightarrow> [img]))
        \<and> filter is_completion (log (fst (run_pending sched cbs run0)))
            = [ToBlob (canvas (fst (run_pending sched cbs run0))) ''image/png'']))
   \<and> FACE_SIZE = 512
   \<and> (front \<noteq> [] \<longrightarrow>
        exportCubemap True (front_only front) = Inr (front_run0, front_cbs front)
        \<and> (\<forall>sched. snd (run_pending sched (front_cbs front) front_run0) = [] \<longrightarrow>
             canvas_width (canvas (fst (run_pending sched (front_cbs front) front_run0)))
               = 4 * FACE_SIZE
           \<and> canvas_height (canvas (fst (run_pending sched (front_cbs front) front_run0)))
               = 3 * FACE_SIZE
           \<and> (\<forall>px py.
                 layers_at (canvas (fst (run_pending sched (front_cbs front) front_run0))) px py =
                   (if px < 4 * FACE_SIZE \<and> py < 3 * FACE_SIZE
                       \<and> px div FACE_SIZE = 1 \<and> py div FACE_SIZE = 1
                    then [front] else []))))"
  using export_composite_general[OF fmt d some] front_only_start[of front]
    front_only_composite[of front] FACE_SIZE_def
  by blast

theorem export_composite_witness:
  "map_of EXPORT_FORMATS (exportFormat (front_only ''data:hill'')) = Some cross_format
   \<and> distinct (map face (slots (front_only ''data:hill'')))
   \<and> list_ex (\<lambda>s. truthy (image s)) (slots (front_only ''data:hill''))
   \<and> exportCubemap True (front_only ''data:hill'') = Inr (front_run0, front_cbs ''data:hill'')
   \<and> snd (run_pending [0] (front_cbs ''data:hill'') front_run0) = []
   \<and> canvas_width (canvas (fst (run_pending [0] (front_cbs ''data:hill'') front_run0))) = 2048
   \<and> canvas_height (canvas (fst (run_pending [0] (front_cbs ''data:hill'') front_run0))) = 1536
   \<and> (\<forall>px py.
         layers_at (canvas (fst (run_pending [0] (front_cbs ''data:hill'') front_run0))) px py =
           (if px < 2048 \<and> py < 1536 \<and> px div 512 = 1 \<and> py div 512 = 1
            then [''data:hill''] else []))"
proof -
  have fmt: "map_of EXPORT_FORMATS (exportFormat (front_only ''data:hill'')) = Some cross_format"
    by (simp add: front_only_def EXPORT_FORMATS_def cross_format_def)
  have d: "distinct (map face (slots (front_only ''data:hill'')))"
    by (simp add: front_only_def INITIAL_SLOTS_def)
  have some: "list_ex (\<lambda>s. truthy (image s)) (slots (front_only ''data:hill''))"
    by (simp add: front_only_def INITIAL_SLOTS_def truthy_def)
  have fin: "snd (run_pending [0] (front_cbs ''data:hill'') front_run0) = []"
    by (simp only: front_only_run) simp
  have img: "''data:hill'' \<noteq> []" by simp
  from export_composite[OF fmt d some, of "''data:hill''"] img
  have ex: "exportCubemap True (front_only ''data:hill'') = Inr (front_run0, front_cbs ''data:hill'')
        \<and> (\<forall>sched. snd (run_pending sched (front_cbs ''data:hill'') front_run0) = [] \<longrightarrow>
             canvas_width (canvas (fst (run_pending sched (front_cbs ''data:hill'') front_run0)))
               = 4 * FACE_SIZE
           \<and> canvas_height (canvas (fst (run_pending sched (front_cbs ''data:hill'') front_run0)))
               = 3 * FACE_SIZE
           \<and> (\<forall>px py.
                 layers_at (canvas (fst (run_pending sched (front_cbs ''data:hill'') front_run0))) px py =
                   (if px < 4 * FACE_SIZE \<and> py < 3 * FACE_SIZE
                       \<and> px div FACE_SIZE = 1 \<and> py div FACE_SIZE = 1
                    then [''data:hill''] else [])))"
    by blast
  then have at: "canvas_width (canvas (fst (run_pending [0] (front_cbs ''data:hill'') front_run0)))
               = 4 * FACE_SIZE
           \<and> canvas_height (canvas (fst (run_pending [0] (front_cbs ''data:hill'') front_run0)))
               = 3 * FACE_SIZE
           \<and> (\<forall>px py.
                 layers_at (canvas (fst (run_pending [0] (front_cbs ''data:hill'') front_run0))) px py =
                   (if px < 4 * FACE_SIZE \<and> py < 3 * FACE_SIZE
                       \<and> px div FACE_SIZE = 1 \<and> py div FACE_SIZE = 1
                    then [''data:hill''] else []))"
    using fin by blast
  show ?thesis
    using fmt d some ex fin at by (simp add: FACE_SIZE_def)
qed

end
